theory Spec2Isabelle
  imports Complex_Main "HOL-Library.Multiset" "HOL-Library.Product_Lexorder"
begin

section \<open>Data model (Convo\_Backend/db.js)\<close>

text \<open>
  Documents carry the \<open>_id\<close> MongoDB gives them; it is the primary key of its collection.
  Object ids, user ids from the token and room ids from the URL are all natural numbers
  here, and a collection is the list of its documents in insertion order. A timestamp is
  the number of milliseconds \<open>Date.now\<close> returned. The schema types \<open>maxMembers\<close> as
  Number with no validator, so it is a rational here.
\<close>

type_synonym objectId = nat

datatype role = Owner | Moderator | Member

datatype status = Online | Offline

record room =
  room_id :: objectId
  room_name :: string
  description :: string
  roomCode :: string
  owner :: objectId
  maxMembers :: rat
  isPrivate :: bool

record roomMember =
  member_id :: objectId
  member_room :: objectId
  member_user :: objectId
  role :: role
  status :: status
  joinedAt :: nat

record message =
  message_id :: objectId
  message_room :: objectId
  author :: objectId
  content :: string
  createdAt :: nat

record db =
  rooms :: "room list"
  roomMembers :: "roomMember list"
  messages :: "message list"
  nextId :: objectId

definition emptyDb :: db where
  "emptyDb = \<lparr>rooms = [], roomMembers = [], messages = [], nextId = 0\<rparr>"

text \<open>A failed request: the HTTP status and the \<open>message\<close> of the JSON body.\<close>

datatype failure = Failure nat string

section \<open>Queries\<close>

text \<open>\<open>Room.findById\<close>, \<open>Room.findOne({roomCode})\<close>, \<open>RoomMember.findOne({room, user})\<close>,
  \<open>RoomMember.find({room})\<close> and \<open>RoomMember.countDocuments({room})\<close>.\<close>

definition findRoomById :: "db \<Rightarrow> objectId \<Rightarrow> room option" where
  "findRoomById st roomId = find (\<lambda>r. room_id r = roomId) (rooms st)"

definition findRoomByCode :: "db \<Rightarrow> string \<Rightarrow> room option" where
  "findRoomByCode st code = find (\<lambda>r. roomCode r = code) (rooms st)"

definition findMembership :: "db \<Rightarrow> objectId \<Rightarrow> objectId \<Rightarrow> roomMember option" where
  "findMembership st roomId uid =
     find (\<lambda>m. member_room m = roomId \<and> member_user m = uid) (roomMembers st)"

definition membersOf :: "db \<Rightarrow> objectId \<Rightarrow> roomMember list" where
  "membersOf st roomId = filter (\<lambda>m. member_room m = roomId) (roomMembers st)"

definition countMembers :: "db \<Rightarrow> objectId \<Rightarrow> nat" where
  "countMembers st roomId = length (membersOf st roomId)"

definition messagesOf :: "db \<Rightarrow> objectId \<Rightarrow> message list" where
  "messagesOf st roomId = filter (\<lambda>x. message_room x = roomId) (messages st)"

section \<open>Strings\<close>

text \<open>
  A string is a list of characters with code points U+0000 to U+00FF, which are the values
  of \<open>char\<close>; strings with other characters are not values of the model.
  \<open>String.prototype.trim\<close> removes white space and line terminators from both ends: of
  the characters up to U+00FF these are tab, line feed, vertical tab, form feed, carriage
  return, space and the no-break space U+00A0.
\<close>

definition isWhitespace :: "char \<Rightarrow> bool" where
  "isWhitespace c = (of_char c \<in> {9, 10, 11, 12, 13, 32, 160 :: nat})"

definition trim :: "string \<Rightarrow> string" where
  "trim s = rev (dropWhile isWhitespace (rev (dropWhile isWhitespace s)))"

text \<open>
  \<open>String.prototype.toUpperCase\<close>. The upper-case form of a character up to U+00FF can
  lie beyond U+00FF or be two characters, so the result is a list of code points: a to z
  and the letters U+00E0 to U+00FE other than the division sign U+00F7 move down by 32,
  sharp s (U+00DF) becomes SS, the micro sign (U+00B5) becomes U+039C, y with diaeresis
  (U+00FF) becomes U+0178, and every other character stays.
\<close>

type_synonym codePoint = nat

definition codePoints :: "string \<Rightarrow> codePoint list" where
  "codePoints s = map of_char s"

definition upperChar :: "char \<Rightarrow> codePoint list" where
  "upperChar c =
     (let n = of_char c in
      if (97 \<le> n \<and> n \<le> 122) \<or> (224 \<le> n \<and> n \<le> 254 \<and> n \<noteq> 247) then [n - 32]
      else if n = 223 then [83, 83]
      else if n = 181 then [924]
      else if n = 255 then [376]
      else [n])"

definition toUpperCase :: "string \<Rightarrow> codePoint list" where
  "toUpperCase s = concat (map upperChar s)"

text \<open>\<open>Room.findOne({roomCode})\<close> for a code given as code points: a stored code matches
  when its characters are those code points.\<close>

definition findRoomByCodePoints :: "db \<Rightarrow> codePoint list \<Rightarrow> room option" where
  "findRoomByCodePoints st code = find (\<lambda>r. codePoints (roomCode r) = code) (rooms st)"

text \<open>Trimming a list of code points, to compare inputs after they are put in upper case.\<close>

definition isWhitespacePoint :: "codePoint \<Rightarrow> bool" where
  "isWhitespacePoint n = (n \<in> {9, 10, 11, 12, 13, 32, 160})"

definition trimPoints :: "codePoint list \<Rightarrow> codePoint list" where
  "trimPoints s = rev (dropWhile isWhitespacePoint (rev (dropWhile isWhitespacePoint s)))"

section \<open>The store's sort\<close>

text \<open>
  \<open>.sort({joinedAt: 1})\<close>: ascending by \<open>joinedAt\<close>. The query names no second key and
  the store fixes no order among documents of equal \<open>joinedAt\<close>; \<open>tie\<close> is the rank the
  store happens to give the documents in one query, any function, given anew with each
  request.
\<close>

definition sortByJoinedAt :: "(roomMember \<Rightarrow> nat) \<Rightarrow> roomMember list \<Rightarrow> roomMember list" where
  "sortByJoinedAt tie ms = sort_key (\<lambda>m. (joinedAt m, tie m)) ms"

section \<open>Room code generator (index.js, generateRoomCode)\<close>

definition characters :: string where
  "characters = ''ABCDEFGHJKLMNPQRSTUVWXYZ23456789''"

definition code_length :: nat where
  "code_length = 6"

text \<open>
  \<open>characters[index]\<close> appended to a string: outside the alphabet the read is
  \<open>undefined\<close>, which concatenates as the text "undefined".
\<close>

definition charAt :: "int \<Rightarrow> string" where
  "charAt index = (if 0 \<le> index \<and> index < int (length characters)
     then [characters ! nat index] else ''undefined'')"

text \<open>
  The inner \<open>for\<close> loop after \<open>i\<close> iterations. \<open>random k\<close> is the value of the
  \<open>k\<close>-th call of \<open>Math.random()\<close>, and \<open>n\<close> calls were made before the loop began.
\<close>

primrec drawCode :: "(nat \<Rightarrow> rat) \<Rightarrow> nat \<Rightarrow> nat \<Rightarrow> string" where
  "drawCode random n 0 = ''''"
| "drawCode random n (Suc i) =
     drawCode random n i @ charAt \<lfloor>random (n + i) * of_nat (length characters)\<rfloor>"

text \<open>The \<open>while (true)\<close> loop; not returning is the value \<open>None\<close>.\<close>

partial_function (option) generateRoomCode ::
  "db \<Rightarrow> (nat \<Rightarrow> rat) \<Rightarrow> nat \<Rightarrow> string option" where
  "generateRoomCode st random n =
     (let code = drawCode random n code_length in
      if findRoomByCode st code = None then Some code
      else generateRoomCode st random (n + code_length))"

section \<open>Request handlers (index.js)\<close>

subsection \<open>POST /rooms\<close>

text \<open>
  A body field that may be absent is an option, and a JavaScript number is a rational. \<open>!name\<close> holds for an absent and for an
  empty name; \<open>description || ""\<close> and \<open>maxMembers || 50\<close> replace an absent, empty or
  zero value. The unique index on \<open>roomCode\<close> makes \<open>Room.create\<close> throw on a
  duplicate, which the handler answers with status 500.
\<close>

definition createRoom ::
  "db \<Rightarrow> string option \<Rightarrow> string option \<Rightarrow> rat option \<Rightarrow> objectId \<Rightarrow> (nat \<Rightarrow> rat) \<Rightarrow> nat
     \<Rightarrow> ((failure + room) \<times> db) option" where
  "createRoom st name desc maxM uid random now =
     (if name = None \<or> name = Some '''' then
        Some (Inl (Failure 400 ''Room name is required''), st)
      else
        (case generateRoomCode st random 0 of
           None \<Rightarrow> None
         | Some code \<Rightarrow>
             if findRoomByCode st code \<noteq> None then
               Some (Inl (Failure 500 ''Internal server error''), st)
             else
               let room = \<lparr>room_id = nextId st,
                           room_name = the name,
                           description = (case desc of None \<Rightarrow> '''' | Some d \<Rightarrow> d),
                           roomCode = code,
                           owner = uid,
                           maxMembers = (case maxM of None \<Rightarrow> 50
                                         | Some k \<Rightarrow> if k = 0 then 50 else k),
                           isPrivate = False\<rparr>;
                   member = \<lparr>member_id = nextId st + 1,
                             member_room = room_id room,
                             member_user = uid,
                             role = Owner,
                             status = Online,
                             joinedAt = now\<rparr>
               in Some (Inr room,
                        st\<lparr>rooms := rooms st @ [room],
                           roomMembers := roomMembers st @ [member],
                           nextId := nextId st + 2\<rparr>)))"

subsection \<open>POST /rooms/join-by-code and POST /rooms/:roomId/join\<close>

text \<open>
  Both handlers run the same statements once the room is found: the capacity check, the
  search for the caller's membership, and the creation of a membership or the update of
  the one found.
\<close>

definition joinFound ::
  "db \<Rightarrow> room \<Rightarrow> objectId \<Rightarrow> nat \<Rightarrow> (failure + room \<times> roomMember) \<times> db" where
  "joinFound st room uid now =
     (let memberCount = countMembers st (room_id room) in
      if of_nat memberCount \<ge> maxMembers room then
        (Inl (Failure 400 ''Room is full''), st)
      else
        (case findMembership st (room_id room) uid of
           None \<Rightarrow>
             let membership = \<lparr>member_id = nextId st,
                                member_room = room_id room,
                                member_user = uid,
                                role = Member,
                                status = Online,
                                joinedAt = now\<rparr>
             in (Inr (room, membership),
                 st\<lparr>roomMembers := roomMembers st @ [membership], nextId := nextId st + 1\<rparr>)
         | Some membership \<Rightarrow>
             (Inr (room, membership\<lparr>status := Online\<rparr>),
              st\<lparr>roomMembers :=
                    map (\<lambda>m. if member_id m = member_id membership
                              then m\<lparr>status := Online\<rparr> else m) (roomMembers st)\<rparr>)))"

text \<open>The first statements of join-by-code: validation of the body and the lookup.\<close>

definition findByCode :: "db \<Rightarrow> string option \<Rightarrow> failure + room" where
  "findByCode st code =
     (case code of
        None \<Rightarrow> Inl (Failure 400 ''Room code is required'')
      | Some c \<Rightarrow>
          if c = '''' \<or> trim c = '''' then Inl (Failure 400 ''Room code is required'')
          else
            (case findRoomByCodePoints st (toUpperCase (trim c)) of
               None \<Rightarrow> Inl (Failure 404 ''Room not found'')
             | Some room \<Rightarrow> Inr room))"

definition joinByCode ::
  "db \<Rightarrow> string option \<Rightarrow> objectId \<Rightarrow> nat \<Rightarrow> (failure + room \<times> roomMember) \<times> db" where
  "joinByCode st code uid now =
     (case findByCode st code of
        Inl e \<Rightarrow> (Inl e, st)
      | Inr room \<Rightarrow> joinFound st room uid now)"

definition joinById ::
  "db \<Rightarrow> objectId \<Rightarrow> objectId \<Rightarrow> nat \<Rightarrow> (failure + room \<times> roomMember) \<times> db" where
  "joinById st roomId uid now =
     (case findRoomById st roomId of
        None \<Rightarrow> (Inl (Failure 404 ''Room not found''), st)
      | Some room \<Rightarrow> joinFound st room uid now)"

subsection \<open>POST /rooms/:roomId/messages\<close>

text \<open>
  The answer carries the stored message; \<open>populate\<close>, which replaces the author id by the
  author's display fields, and the socket broadcast are left out.
\<close>

definition sendMessage ::
  "db \<Rightarrow> objectId \<Rightarrow> objectId \<Rightarrow> string option \<Rightarrow> nat \<Rightarrow> (failure + message) \<times> db" where
  "sendMessage st roomId uid body now =
     (if body = None \<or> body = Some '''' \<or> trim (the body) = '''' then
        (Inl (Failure 400 ''Message content is required''), st)
      else
        (case findRoomById st roomId of
           None \<Rightarrow> (Inl (Failure 404 ''Room not found''), st)
         | Some room \<Rightarrow>
             (case findMembership st roomId uid of
                None \<Rightarrow> (Inl (Failure 403 ''You are not a member of this room''), st)
              | Some membership \<Rightarrow>
                  let msg = \<lparr>message_id = nextId st,
                             message_room = roomId,
                             author = uid,
                             content = trim (the body),
                             createdAt = now\<rparr>
                  in (Inr msg, st\<lparr>messages := messages st @ [msg], nextId := nextId st + 1\<rparr>))))"

subsection \<open>GET /rooms/:roomId/details\<close>

definition details ::
  "db \<Rightarrow> objectId \<Rightarrow> objectId \<Rightarrow> (roomMember \<Rightarrow> nat)
     \<Rightarrow> failure + room \<times> roomMember list \<times> roomMember" where
  "details st roomId uid tie =
     (case findRoomById st roomId of
        None \<Rightarrow> Inl (Failure 404 ''Room not found'')
      | Some room \<Rightarrow>
          (case findMembership st roomId uid of
             None \<Rightarrow> Inl (Failure 403 ''You are not a member of this room'')
           | Some membership \<Rightarrow>
               Inr (room,
                    sortByJoinedAt tie (membersOf st roomId),
                    membership)))"

subsection \<open>PATCH /rooms/:roomId\<close>

text \<open>\<open>renameRoomSchema\<close> accepts a body whose \<open>name\<close> is a string of at least one character.\<close>

definition renameRoom ::
  "db \<Rightarrow> objectId \<Rightarrow> objectId \<Rightarrow> string option \<Rightarrow> (failure + room) \<times> db" where
  "renameRoom st roomId uid name =
     (if name = None \<or> name = Some '''' then
        (Inl (Failure 400 ''Invalid room data''), st)
      else
        (case findRoomById st roomId of
           None \<Rightarrow> (Inl (Failure 404 ''Room not found''), st)
         | Some room \<Rightarrow>
             if owner room \<noteq> uid then
               (Inl (Failure 403 ''Only the room creator can rename the room''), st)
             else
               (Inr (room\<lparr>room_name := the name\<rparr>),
                st\<lparr>rooms := map (\<lambda>r. if room_id r = room_id room
                                      then r\<lparr>room_name := the name\<rparr> else r) (rooms st)\<rparr>)))"

subsection \<open>POST /rooms/:roomId/leave\<close>

text \<open>The two answers of the handler: \<open>{deleted: true}\<close> and
  \<open>{deleted: false, roomId, newOwnerId}\<close>.\<close>

datatype leaveResponse = RoomDeleted | RoomKept objectId objectId

text \<open>\<open>room.owner = newOwnerMembership.user\<close>, \<open>newOwnerMembership.role = "owner"\<close> and the
  two saves.\<close>

definition transferOwnership :: "db \<Rightarrow> room \<Rightarrow> roomMember \<Rightarrow> room \<times> db" where
  "transferOwnership st room newOwnerMembership =
     (room\<lparr>owner := member_user newOwnerMembership\<rparr>,
      st\<lparr>rooms := map (\<lambda>r. if room_id r = room_id room
                            then r\<lparr>owner := member_user newOwnerMembership\<rparr> else r) (rooms st),
         roomMembers := map (\<lambda>m. if member_id m = member_id newOwnerMembership
                                  then m\<lparr>role := Owner\<rparr> else m) (roomMembers st)\<rparr>)"

definition leaveRoom ::
  "db \<Rightarrow> objectId \<Rightarrow> objectId \<Rightarrow> (roomMember \<Rightarrow> nat) \<Rightarrow> (failure + leaveResponse) \<times> db" where
  "leaveRoom st roomId uid tie =
     (case findRoomById st roomId of
        None \<Rightarrow> (Inl (Failure 404 ''Room not found''), st)
      | Some room \<Rightarrow>
          (case findMembership st roomId uid of
             None \<Rightarrow> (Inl (Failure 400 ''You are not a member of this room''), st)
           | Some membership \<Rightarrow>
               let membersInRoom = sortByJoinedAt tie (membersOf st roomId)
               in
               if length membersInRoom = 1 then
                 (Inr RoomDeleted,
                  st\<lparr>messages := filter (\<lambda>x. message_room x \<noteq> roomId) (messages st),
                     roomMembers := filter (\<lambda>m. member_room m \<noteq> roomId) (roomMembers st),
                     rooms := filter (\<lambda>r. room_id r \<noteq> roomId) (rooms st)\<rparr>)
               else
                 let (room1, st1) =
                       (if owner room = uid then
                          (case find (\<lambda>m. member_user m \<noteq> uid) membersInRoom of
                             None \<Rightarrow> (room, st)
                           | Some newOwnerMembership \<Rightarrow>
                               transferOwnership st room newOwnerMembership)
                        else (room, st))
                 in (Inr (RoomKept (room_id room1) (owner room1)),
                     st1\<lparr>roomMembers :=
                           filter (\<lambda>m. member_id m \<noteq> member_id membership) (roomMembers st1)\<rparr>)))"

section \<open>Reachable states\<close>

text \<open>The states the handlers produce from the empty database, one request after another.
  Every value of \<open>Math.random()\<close> lies in [0, 1), and a leave request may meet any order
  among members of equal \<open>joinedAt\<close>.\<close>

inductive reachable :: "db \<Rightarrow> bool" where
  reach_empty: "reachable emptyDb"
| reach_create:
    "reachable st \<Longrightarrow> \<forall>k. 0 \<le> random k \<and> random k < 1
       \<Longrightarrow> createRoom st name desc maxM uid random now = Some (res, st')
       \<Longrightarrow> reachable st'"
| reach_joinByCode:
    "reachable st \<Longrightarrow> joinByCode st code uid now = (jres, st') \<Longrightarrow> reachable st'"
| reach_joinById:
    "reachable st \<Longrightarrow> joinById st roomId uid now = (jres, st') \<Longrightarrow> reachable st'"
| reach_leave:
    "reachable st \<Longrightarrow> leaveRoom st roomId uid tie = (lres, st') \<Longrightarrow> reachable st'"
| reach_rename:
    "reachable st \<Longrightarrow> renameRoom st roomId uid name = (res, st') \<Longrightarrow> reachable st'"
| reach_send:
    "reachable st \<Longrightarrow> sendMessage st roomId uid body now = (mres, st') \<Longrightarrow> reachable st'"

section \<open>Invariants of the database\<close>

text \<open>Ids are fresh: distinct within a collection and below the next id to be given.\<close>

definition ids_ok :: "db \<Rightarrow> bool" where
  "ids_ok st \<longleftrightarrow>
     distinct (map room_id (rooms st)) \<and> distinct (map member_id (roomMembers st))
     \<and> (\<forall>r\<in>set (rooms st). room_id r < nextId st)
     \<and> (\<forall>m\<in>set (roomMembers st). member_id m < nextId st \<and> member_room m < nextId st)"

text \<open>A user has at most one membership in a room.\<close>

definition pairs_ok :: "db \<Rightarrow> bool" where
  "pairs_ok st \<longleftrightarrow> distinct (map (\<lambda>m. (member_room m, member_user m)) (roomMembers st))"

text \<open>The owner of a room is a member of it, and the memberships of the room with role
  owner are those of its owner.\<close>

definition owner_ok :: "db \<Rightarrow> bool" where
  "owner_ok st \<longleftrightarrow>
     (\<forall>r\<in>set (rooms st).
        (\<exists>m\<in>set (roomMembers st). member_room m = room_id r \<and> member_user m = owner r)
        \<and> (\<forall>m\<in>set (roomMembers st). member_room m = room_id r \<longrightarrow>
              (role m = Owner) = (member_user m = owner r)))"

text \<open>Room codes are distinct, six characters long and drawn from the alphabet.\<close>

definition codes_ok :: "db \<Rightarrow> bool" where
  "codes_ok st \<longleftrightarrow>
     distinct (map roomCode (rooms st))
     \<and> (\<forall>r\<in>set (rooms st). length (roomCode r) = 6 \<and> set (roomCode r) \<subseteq> set characters)"

text \<open>A room whose limit is a whole number of at least 1 never holds more members than
  its limit.\<close>

definition capacity_ok :: "db \<Rightarrow> bool" where
  "capacity_ok st \<longleftrightarrow>
     (\<forall>r\<in>set (rooms st). maxMembers r \<in> \<int> \<and> 1 \<le> maxMembers r \<longrightarrow>
        of_nat (countMembers st (room_id r)) \<le> maxMembers r)"

definition db_inv :: "db \<Rightarrow> bool" where
  "db_inv st \<longleftrightarrow> ids_ok st \<and> pairs_ok st \<and> owner_ok st \<and> codes_ok st \<and> capacity_ok st"

section \<open>The members who stay\<close>

text \<open>The memberships of a room other than those of a given user, in stored order.\<close>

definition othersOf :: "db \<Rightarrow> objectId \<Rightarrow> objectId \<Rightarrow> roomMember list" where
  "othersOf st roomId uid = filter (\<lambda>m. member_user m \<noteq> uid) (membersOf st roomId)"

section \<open>Example states\<close>

text \<open>
  The scenario of the specification: user 1 creates the room "Test" at time 100, with
  every call of \<open>Math.random()\<close> returning 0, so the code drawn is AAAAAA; user 2 joins
  at time 200 and user 3 at time 300.
\<close>

definition alwaysZero :: "nat \<Rightarrow> rat" where
  "alwaysZero k = 0"

text \<open>Six draws of 0, then draws of 1/2: the first candidate is AAAAAA, the second SSSSSS.\<close>

definition zeroThenHalf :: "nat \<Rightarrow> rat" where
  "zeroThenHalf k = (if k < 6 then 0 else 1 / 2)"

definition testRoom :: room where
  "testRoom = \<lparr>room_id = 0, room_name = ''Test'', description = '''', roomCode = ''AAAAAA'',
                owner = 1, maxMembers = 50, isPrivate = False\<rparr>"

definition member1 :: roomMember where
  "member1 = \<lparr>member_id = 1, member_room = 0, member_user = 1, role = Owner,
               status = Online, joinedAt = 100\<rparr>"

definition member2 :: roomMember where
  "member2 = \<lparr>member_id = 2, member_room = 0, member_user = 2, role = Member,
               status = Online, joinedAt = 200\<rparr>"

definition member3 :: roomMember where
  "member3 = \<lparr>member_id = 3, member_room = 0, member_user = 3, role = Member,
               status = Online, joinedAt = 300\<rparr>"

definition dbCreated :: db where
  "dbCreated = \<lparr>rooms = [testRoom], roomMembers = [member1], messages = [], nextId = 2\<rparr>"

definition dbJoined :: db where
  "dbJoined = \<lparr>rooms = [testRoom], roomMembers = [member1, member2], messages = [],
                nextId = 3\<rparr>"

definition dbThree :: db where
  "dbThree = \<lparr>rooms = [testRoom], roomMembers = [member1, member2, member3], messages = [],
               nextId = 4\<rparr>"

text \<open>The same room created with \<open>maxMembers\<close> 2 and with \<open>maxMembers\<close> -1 in the body.\<close>

definition smallRoom :: room where
  "smallRoom = testRoom\<lparr>maxMembers := 2\<rparr>"

definition dbSmall :: db where
  "dbSmall = \<lparr>rooms = [smallRoom], roomMembers = [member1], messages = [], nextId = 2\<rparr>"

definition dbSmallJoined :: db where
  "dbSmallJoined = \<lparr>rooms = [smallRoom], roomMembers = [member1, member2], messages = [],
                      nextId = 3\<rparr>"

definition negativeRoom :: room where
  "negativeRoom = testRoom\<lparr>maxMembers := - 1\<rparr>"

definition dbNegative :: db where
  "dbNegative = \<lparr>rooms = [negativeRoom], roomMembers = [member1], messages = [], nextId = 2\<rparr>"

text \<open>The same room created with \<open>maxMembers\<close> 3/2 in the body, before and after user 2
  joins.\<close>

definition halfRoom :: room where
  "halfRoom = testRoom\<lparr>maxMembers := 3 / 2\<rparr>"

definition dbHalf :: db where
  "dbHalf = \<lparr>rooms = [halfRoom], roomMembers = [member1], messages = [], nextId = 2\<rparr>"

definition dbHalfJoined :: db where
  "dbHalfJoined = \<lparr>rooms = [halfRoom], roomMembers = [member1, member2], messages = [],
                     nextId = 3\<rparr>"

text \<open>User 1 has sent "hi" to the room at time 150.\<close>

definition hiMessage :: message where
  "hiMessage = \<lparr>message_id = 2, message_room = 0, author = 1, content = ''hi'',
                 createdAt = 150\<rparr>"

definition dbChat :: db where
  "dbChat = \<lparr>rooms = [testRoom], roomMembers = [member1], messages = [hiMessage], nextId = 3\<rparr>"

text \<open>Users 2 and 3 have both joined at time 200, and two orders the store may give
  members of equal \<open>joinedAt\<close>: by ascending and by descending user id.\<close>

definition member3t :: roomMember where
  "member3t = member3\<lparr>joinedAt := 200\<rparr>"

definition dbTie :: db where
  "dbTie = \<lparr>rooms = [testRoom], roomMembers = [member1, member2, member3t], messages = [],
             nextId = 4\<rparr>"

definition userAscending :: "roomMember \<Rightarrow> nat" where
  "userAscending m = member_user m"

definition userDescending :: "roomMember \<Rightarrow> nat" where
  "userDescending m = 10 - member_user m"

text \<open>User 1, the owner, has left the room of three.\<close>

definition dbTransferred :: db where
  "dbTransferred = \<lparr>rooms = [testRoom\<lparr>owner := 2\<rparr>],
                     roomMembers = [member2\<lparr>role := Owner\<rparr>, member3], messages = [],
                     nextId = 4\<rparr>"

section \<open>Facts about lists and queries\<close>

lemma find_filter_single:
  "filter P xs = [m] \<Longrightarrow> Q m \<Longrightarrow> find (\<lambda>x. P x \<and> Q x) xs = Some m"
proof (induction xs)
  case Nil
  then show ?case by simp
next
  case (Cons x xs)
  show ?case
  proof (cases "P x")
    case True
    with Cons.prems have "x = m" by simp
    with True Cons.prems show ?thesis by simp
  next
    case False
    with Cons show ?thesis by simp
  qed
qed

lemma find_None_filter: "find P (filter (\<lambda>x. \<not> P x) xs) = None"
  by (induction xs) auto

lemma find_SomeD: "find P xs = Some x \<Longrightarrow> x \<in> set xs \<and> P x"
  by (induction xs) (auto split: if_splits)

lemma find_unique:
  "x \<in> set xs \<Longrightarrow> P x \<Longrightarrow> (\<And>y. y \<in> set xs \<Longrightarrow> P y \<Longrightarrow> y = x) \<Longrightarrow> find P xs = Some x"
proof (induction xs)
  case Nil
  then show ?case by simp
next
  case (Cons a xs)
  show ?case
  proof (cases "P a")
    case True
    with Cons.prems(3)[of a] have "a = x" by simp
    with True show ?thesis by simp
  next
    case False
    with Cons.prems(1,2) have a: "x \<in> set xs" by auto
    have "find P xs = Some x"
      by (rule Cons.IH[OF a Cons.prems(2)]) (simp add: Cons.prems(3))
    with False show ?thesis by simp
  qed
qed

lemma find_hd_filter: "find P xs = Some x \<Longrightarrow> filter P xs \<noteq> [] \<and> x = hd (filter P xs)"
  by (induction xs) (auto split: if_splits)

lemma find_map_pred:
  "(\<And>x. P (f x) = P x) \<Longrightarrow> find P (map f xs) = map_option f (find P xs)"
  by (induction xs) auto

lemma find_map_room:
  "(\<And>x. room_id (g x) = room_id x) \<Longrightarrow>
   find (\<lambda>r. room_id r = roomId) (map (\<lambda>x. if room_id x = roomId then g x else x) rs) =
   map_option g (find (\<lambda>r. room_id r = roomId) rs)"
  by (induction rs) auto

lemma filter_single:
  "distinct xs \<Longrightarrow> x \<in> set xs \<Longrightarrow> (\<And>y. y \<in> set xs \<Longrightarrow> P y = (y = x)) \<Longrightarrow> filter P xs = [x]"
proof (induction xs)
  case Nil
  then show ?case by simp
next
  case (Cons a xs)
  show ?case
  proof (cases "a = x")
    case True
    with Cons.prems(1) have "x \<notin> set xs" by simp
    with Cons.prems(3) have "\<forall>y\<in>set xs. \<not> P y" by (metis list.set_intros(2))
    then have "filter P xs = []" by (simp add: filter_empty_conv)
    moreover from True Cons.prems(3) have "P a" by simp
    ultimately show ?thesis using True by simp
  next
    case False
    with Cons.prems(2) have a: "x \<in> set xs" by simp
    from Cons.prems(1) have b: "distinct xs" by simp
    have c: "\<And>y. y \<in> set xs \<Longrightarrow> P y = (y = x)" using Cons.prems(3) by simp
    have "filter P xs = [x]" by (rule Cons.IH[OF b a c])
    moreover from False Cons.prems(3) have "\<not> P a" by simp
    ultimately show ?thesis by simp
  qed
qed

lemma distinct_other:
  assumes "distinct xs" and "x \<in> set xs" and "length xs \<noteq> 1"
  shows "\<exists>y\<in>set xs. y \<noteq> x"
proof (rule ccontr)
  assume "\<not> (\<exists>y\<in>set xs. y \<noteq> x)"
  with assms(2) have "set xs = {x}" by blast
  then have "card (set xs) = card {x}" by (rule arg_cong)
  then have "length xs = 1" by (simp add: distinct_card[OF assms(1)])
  with assms(3) show False by simp
qed

lemma length_filter_conj_le:
  "length (filter (\<lambda>x. Q x \<and> P x) xs) \<le> length (filter P xs)"
  by (induction xs) auto

lemma hd_insort_key:
  "hd (insort_key f x ys) = (if ys = [] \<or> f x \<le> f (hd ys) then x else hd ys)"
  by (cases ys) auto

lemma sort_key_Nil_iff: "sort_key f xs = [] \<longleftrightarrow> xs = []"
  by (metis length_0_conv length_sort)

text \<open>The head of a stable sort is the first element of the list with the least key.\<close>

lemma hd_sort_key_first_min:
  "xs \<noteq> [] \<Longrightarrow>
     \<exists>i<length xs. hd (sort_key f xs) = xs ! i
       \<and> (\<forall>j<length xs. f (xs ! i) \<le> f (xs ! j))
       \<and> (\<forall>j<i. f (xs ! i) < f (xs ! j))"
proof (induction xs)
  case Nil
  then show ?case by simp
next
  case (Cons x xs)
  show ?case
  proof (cases "xs = []")
    case True
    then show ?thesis by simp
  next
    case False
    from Cons.IH[OF False] obtain i where i: "i < length xs" "hd (sort_key f xs) = xs ! i"
      "\<forall>j<length xs. f (xs ! i) \<le> f (xs ! j)" "\<forall>j<i. f (xs ! i) < f (xs ! j)"
      by blast
    have h: "hd (sort_key f (x # xs)) = (if f x \<le> f (xs ! i) then x else xs ! i)"
      using False i(2) by (simp add: hd_insort_key sort_key_Nil_iff)
    show ?thesis
    proof (cases "f x \<le> f (xs ! i)")
      case True
      have "\<forall>j<length (x # xs). f ((x # xs) ! 0) \<le> f ((x # xs) ! j)"
      proof (intro allI impI)
        fix j assume j: "j < length (x # xs)"
        show "f ((x # xs) ! 0) \<le> f ((x # xs) ! j)"
        proof (cases j)
          case 0
          then show ?thesis by simp
        next
          case (Suc k)
          with j have "k < length xs" by simp
          with i(3) have "f (xs ! i) \<le> f (xs ! k)" by blast
          with True Suc show ?thesis by simp
        qed
      qed
      with h True show ?thesis by (intro exI[of _ 0]) simp
    next
      case lt: False
      have a: "\<forall>j<length (x # xs). f ((x # xs) ! Suc i) \<le> f ((x # xs) ! j)"
      proof (intro allI impI)
        fix j assume j: "j < length (x # xs)"
        show "f ((x # xs) ! Suc i) \<le> f ((x # xs) ! j)"
        proof (cases j)
          case 0
          with lt show ?thesis by simp
        next
          case (Suc k)
          with j have "k < length xs" by simp
          with i(3) have "f (xs ! i) \<le> f (xs ! k)" by blast
          with Suc show ?thesis by simp
        qed
      qed
      have b: "\<forall>j<Suc i. f ((x # xs) ! Suc i) < f ((x # xs) ! j)"
      proof (intro allI impI)
        fix j assume j: "j < Suc i"
        show "f ((x # xs) ! Suc i) < f ((x # xs) ! j)"
        proof (cases j)
          case 0
          with lt show ?thesis by simp
        next
          case (Suc k)
          with j have "k < i" by simp
          with i(4) have "f (xs ! i) < f (xs ! k)" by blast
          with Suc show ?thesis by simp
        qed
      qed
      from h lt i(1) a b show ?thesis by (intro exI[of _ "Suc i"]) simp
    qed
  qed
qed

lemma sortByJoinedAt_length: "length (sortByJoinedAt tie ms) = length ms"
  by (simp add: sortByJoinedAt_def)

lemma sortByJoinedAt_set: "set (sortByJoinedAt tie ms) = set ms"
  by (simp add: sortByJoinedAt_def)

lemma sorted_map_fst:
  "sorted (map (\<lambda>m. (f m, g m)) xs) \<Longrightarrow> sorted (map f xs)"
  for f :: "'a \<Rightarrow> nat" and g :: "'a \<Rightarrow> nat"
proof (induction xs)
  case Nil
  then show ?case by simp
next
  case (Cons x xs)
  then show ?case by auto
qed

lemma sortByJoinedAt_sorted: "sorted (map joinedAt (sortByJoinedAt tie ms))"
proof -
  have "sorted (map (\<lambda>m. (joinedAt m, tie m)) (sortByJoinedAt tie ms))"
    by (simp add: sortByJoinedAt_def)
  then show ?thesis by (rule sorted_map_fst)
qed

text \<open>
  Every ascending order of distinct documents is one that \<open>sortByJoinedAt\<close> gives, for the
  rank that numbers the documents in that order.
\<close>

lemma position_nth:
  "distinct ys \<Longrightarrow> i < length ys \<Longrightarrow> length (takeWhile (\<lambda>x. x \<noteq> ys ! i) ys) = i"
proof (induction ys arbitrary: i)
  case Nil
  then show ?case by simp
next
  case (Cons y ys)
  show ?case
  proof (cases i)
    case 0
    then show ?thesis by simp
  next
    case (Suc k)
    with Cons.prems have k: "k < length ys" "distinct ys" "ys ! k \<noteq> y" by auto
    with Cons.IH[of k] Suc show ?thesis by simp
  qed
qed

lemma filter_is_singleton:
  "distinct xs \<Longrightarrow> k \<in> set xs \<Longrightarrow> (\<And>x. x \<in> set xs \<Longrightarrow> P x \<longleftrightarrow> x = k) \<Longrightarrow> filter P xs = [k]"
proof (induction xs)
  case Nil
  then show ?case by simp
next
  case (Cons a xs)
  show ?case
  proof (cases "a = k")
    case True
    with Cons.prems have "\<And>x. x \<in> set xs \<Longrightarrow> \<not> P x" by auto
    then have "filter P xs = []" by (simp add: filter_empty_conv)
    with True Cons.prems(3)[of a] show ?thesis by simp
  next
    case False
    with Cons.prems have "k \<in> set xs" "distinct xs" "\<not> P a" by auto
    with Cons.IH Cons.prems(3) show ?thesis by simp
  qed
qed

lemma sort_key_any_order:
  fixes f :: "'a \<Rightarrow> nat"
  assumes d: "distinct ms" and p: "mset ys = mset ms" and s: "sorted (map f ys)"
  shows "sort_key (\<lambda>m. (f m, length (takeWhile (\<lambda>x. x \<noteq> m) ys))) ms = ys"
proof (rule properties_for_sort_key)
  let ?idx = "\<lambda>m. length (takeWhile (\<lambda>x. x \<noteq> m) ys)"
  let ?key = "\<lambda>m. (f m, ?idx m)"
  from d p have dy: "distinct ys" by (metis mset_eq_imp_distinct_iff)
  from p have se: "set ys = set ms" by (rule mset_eq_setD)
  show "mset ys = mset ms" by (rule p)
  have inj: "x = k" if "x \<in> set ys" "k \<in> set ys" "?idx x = ?idx k" for x k
  proof -
    from that obtain i j where i: "i < length ys" "ys ! i = x" and j: "j < length ys" "ys ! j = k"
      by (auto simp: in_set_conv_nth)
    from position_nth[OF dy i(1)] position_nth[OF dy j(1)] i j that(3) show ?thesis by simp
  qed
  show "filter (\<lambda>x. ?key k = ?key x) ys = filter (\<lambda>x. ?key k = ?key x) ms" if k: "k \<in> set ys" for k
  proof -
    have a: "filter (\<lambda>x. ?key k = ?key x) ys = [k]"
    proof (rule filter_is_singleton[OF dy k])
      fix x assume "x \<in> set ys"
      with inj[OF this k] show "(?key k = ?key x) = (x = k)" by auto
    qed
    have b: "filter (\<lambda>x. ?key k = ?key x) ms = [k]"
    proof (rule filter_is_singleton[OF d])
      from k se show "k \<in> set ms" by simp
      fix x assume "x \<in> set ms"
      with se have "x \<in> set ys" by simp
      with inj[OF this k] show "(?key k = ?key x) = (x = k)" by auto
    qed
    from a b show ?thesis by simp
  qed
  show "sorted (map ?key ys)"
  proof (subst sorted_iff_nth_mono, intro allI impI)
    fix i j assume ij: "i \<le> j" "j < length (map ?key ys)"
    then have l: "i < length ys" "j < length ys" by simp_all
    from s ij have "f (ys ! i) \<le> f (ys ! j)"
      using sorted_iff_nth_mono[of "map f ys"] l by fastforce
    moreover have "?idx (ys ! i) = i" "?idx (ys ! j) = j"
      using position_nth[OF dy l(1)] position_nth[OF dy l(2)] by simp_all
    ultimately show "map ?key ys ! i \<le> map ?key ys ! j"
      using ij(1) l by (simp add: less_eq_prod_simp)
  qed
qed

lemma sortByJoinedAt_any_order:
  assumes "distinct ms" and "mset ys = mset ms" and "sorted (map joinedAt ys)"
  shows "\<exists>tie. sortByJoinedAt tie ms = ys"
  unfolding sortByJoinedAt_def using sort_key_any_order[OF assms]
  by (intro exI[of _ "\<lambda>m. length (takeWhile (\<lambda>x. x \<noteq> m) ys)"])

lemmas query_defs = findRoomById_def findRoomByCode_def findMembership_def membersOf_def countMembers_def messagesOf_def

lemma findMembership_None:
  "findMembership st roomId uid = None \<longleftrightarrow>
     \<not> (\<exists>m\<in>set (roomMembers st). member_room m = roomId \<and> member_user m = uid)"
  by (auto simp: findMembership_def find_None_iff)

lemma findMembership_Some:
  "findMembership st roomId uid = Some m \<Longrightarrow>
     m \<in> set (roomMembers st) \<and> member_room m = roomId \<and> member_user m = uid"
  by (auto simp: findMembership_def find_Some_iff)

lemma findRoomById_None:
  "findRoomById st roomId = None \<longleftrightarrow> \<not> (\<exists>r\<in>set (rooms st). room_id r = roomId)"
  by (auto simp: findRoomById_def find_None_iff)

lemma findRoomById_Some:
  "findRoomById st roomId = Some r \<Longrightarrow> r \<in> set (rooms st) \<and> room_id r = roomId"
  by (auto simp: findRoomById_def find_Some_iff)

lemma findRoomByCode_None: "findRoomByCode st code = None \<longleftrightarrow> (\<forall>r\<in>set (rooms st). roomCode r \<noteq> code)"
  by (auto simp: findRoomByCode_def find_None_iff)

lemma codePoints_inject:
  assumes "codePoints a = codePoints b"
  shows "a = b"
proof -
  from assms have "map (of_char :: char \<Rightarrow> nat) a = map of_char b" by (simp add: codePoints_def)
  moreover have "inj (of_char :: char \<Rightarrow> nat)" by (rule injI) simp
  ultimately show ?thesis by (rule map_injective)
qed

lemma findRoomByCodePoints_Some_D:
  "findRoomByCodePoints st code = Some r \<Longrightarrow> r \<in> set (rooms st) \<and> codePoints (roomCode r) = code"
  unfolding findRoomByCodePoints_def by (rule find_SomeD)

lemma findRoomByCode_Some_D:
  "findRoomByCode st code = Some r \<Longrightarrow> r \<in> set (rooms st) \<and> roomCode r = code"
  by (auto simp: findRoomByCode_def find_Some_iff)

lemma countMembers_append:
  "countMembers (st\<lparr>roomMembers := roomMembers st @ [m], nextId := k\<rparr>) rid =
     countMembers st rid + (if member_room m = rid then 1 else 0)"
  by (simp add: countMembers_def membersOf_def)

lemma below_whole_limit:
  assumes "(q::rat) \<in> \<int>" and "\<not> q \<le> of_nat n"
  shows "of_nat (n + 1) \<le> q"
proof -
  from assms(1) obtain k where k: "q = of_int k" by (rule Ints_cases)
  with assms(2) have "(of_int (int n) :: rat) < of_int k" by simp
  then have "int n < k" by (simp only: of_int_less_iff)
  then have "int (n + 1) \<le> k" by simp
  then have "(of_int (int (n + 1)) :: rat) \<le> of_int k" by (simp only: of_int_le_iff)
  with k show ?thesis by simp
qed

section \<open>Facts about strings\<close>

lemma upperChar_whitespace: "isWhitespace c \<Longrightarrow> upperChar c = [of_char c]"
  by (auto simp: isWhitespace_def upperChar_def Let_def)

lemma isWhitespacePoint_of_char: "isWhitespacePoint (of_char c) = isWhitespace c"
  by (simp add: isWhitespacePoint_def isWhitespace_def)

lemma upperChar_not_whitespace:
  "\<not> isWhitespace c \<Longrightarrow> upperChar c \<noteq> [] \<and> (\<forall>n\<in>set (upperChar c). \<not> isWhitespacePoint n)"
  by (auto simp: isWhitespace_def isWhitespacePoint_def upperChar_def Let_def)

lemma upperChar_nonempty: "upperChar c \<noteq> []"
  by (simp add: upperChar_def Let_def)

lemma upperChar_alphabet: "\<forall>c\<in>set characters. upperChar c = [of_char c]"
  by code_simp

lemma toUpperCase_characters: "set s \<subseteq> set characters \<Longrightarrow> toUpperCase s = codePoints s"
proof (induction s)
  case Nil
  then show ?case by (simp add: toUpperCase_def codePoints_def)
next
  case (Cons c s)
  then have "upperChar c = [of_char c]" using upperChar_alphabet by simp
  with Cons show ?case by (simp add: toUpperCase_def codePoints_def)
qed

lemma toUpperCase_Nil_iff: "toUpperCase s = [] \<longleftrightarrow> s = []"
  by (cases s) (simp_all add: toUpperCase_def upperChar_nonempty)

lemma trim_Nil: "trim [] = []"
  by (simp add: trim_def)

text \<open>Dropping leading white space before or after a character-wise mapping that keeps
  white space and maps other characters to white-space-free, non-empty lists.\<close>

lemma dropWhile_concat_map:
  assumes w: "\<And>c. isWhitespace c \<Longrightarrow> g c = [of_char c]"
    and n: "\<And>c. \<not> isWhitespace c \<Longrightarrow> g c \<noteq> [] \<and> \<not> isWhitespacePoint (hd (g c))"
  shows "dropWhile isWhitespacePoint (concat (map g s)) = concat (map g (dropWhile isWhitespace s))"
proof (induction s)
  case Nil
  show ?case by simp
next
  case (Cons c s)
  show ?case
  proof (cases "isWhitespace c")
    case True
    with w[OF True] Cons show ?thesis by (simp add: isWhitespacePoint_of_char)
  next
    case False
    from n[OF False] obtain x xs where g: "g c = x # xs" "\<not> isWhitespacePoint x"
      by (cases "g c") auto
    with False show ?thesis by simp
  qed
qed

lemma trim_toUpperCase: "trimPoints (toUpperCase s) = toUpperCase (trim s)"
proof -
  have a: "dropWhile isWhitespacePoint (concat (map upperChar t)) =
      concat (map upperChar (dropWhile isWhitespace t))" for t
  proof (rule dropWhile_concat_map)
    fix c assume "isWhitespace c" then show "upperChar c = [of_char c]"
      by (rule upperChar_whitespace)
  next
    fix c assume "\<not> isWhitespace c"
    from upperChar_not_whitespace[OF this]
    show "upperChar c \<noteq> [] \<and> \<not> isWhitespacePoint (hd (upperChar c))" by auto
  qed
  have b: "dropWhile isWhitespacePoint (concat (map (rev \<circ> upperChar) t)) =
      concat (map (rev \<circ> upperChar) (dropWhile isWhitespace t))" for t
  proof (rule dropWhile_concat_map)
    fix c assume "isWhitespace c" then show "(rev \<circ> upperChar) c = [of_char c]"
      by (simp add: upperChar_whitespace)
  next
    fix c assume "\<not> isWhitespace c"
    from upperChar_not_whitespace[OF this]
    have ne: "rev (upperChar c) \<noteq> []" and all: "\<forall>n\<in>set (rev (upperChar c)). \<not> isWhitespacePoint n"
      by simp_all
    from ne have "hd (rev (upperChar c)) \<in> set (rev (upperChar c))" by (rule hd_in_set)
    with ne all show "(rev \<circ> upperChar) c \<noteq> [] \<and> \<not> isWhitespacePoint (hd ((rev \<circ> upperChar) c))"
      by simp
  qed
  have r: "rev (concat (map upperChar t)) = concat (map (rev \<circ> upperChar) (rev t))" for t
    by (simp add: rev_concat rev_map)
  have r': "rev (concat (map (rev \<circ> upperChar) t)) = concat (map upperChar (rev t))" for t
    by (simp add: rev_concat rev_map o_def)
  show ?thesis
    unfolding trimPoints_def toUpperCase_def trim_def a r b r' ..
qed

lemma trim_hi: "trim '' hi '' = ''hi''"
  by code_simp

lemma trim_blank: "trim ''  '' = ''''"
  by code_simp

lemma trim_nbsp: "trim [CHR 0xA0] = ''''"
  by code_simp

lemma normalize_example: "toUpperCase (trim (CHR 0xA0 # '' aaaaaa '')) = codePoints ''AAAAAA''"
  by code_simp

section \<open>Facts about the generator\<close>

lemma generateRoomCode_Some_D:
  assumes "generateRoomCode st random n = Some code"
  shows "\<exists>k. code = drawCode random (n + k * code_length) code_length
       \<and> findRoomByCode st code = None
       \<and> (\<forall>j<k. findRoomByCode st (drawCode random (n + j * code_length) code_length) \<noteq> None)"
proof (rule generateRoomCode.raw_induct[OF _ assms])
  fix gen :: "db \<Rightarrow> (nat \<Rightarrow> rat) \<Rightarrow> nat \<Rightarrow> string option" and st random n code
  assume IH: "\<And>st random n code. gen st random n = Some code \<Longrightarrow>
     \<exists>k. code = drawCode random (n + k * code_length) code_length
       \<and> findRoomByCode st code = None
       \<and> (\<forall>j<k. findRoomByCode st (drawCode random (n + j * code_length) code_length) \<noteq> None)"
  assume body: "(let code = drawCode random n code_length in
      if findRoomByCode st code = None then Some code
      else gen st random (n + code_length)) = Some code"
  show "\<exists>k. code = drawCode random (n + k * code_length) code_length
       \<and> findRoomByCode st code = None
       \<and> (\<forall>j<k. findRoomByCode st (drawCode random (n + j * code_length) code_length) \<noteq> None)"
  proof (cases "findRoomByCode st (drawCode random n code_length) = None")
    case True
    with body have "code = drawCode random n code_length" by (simp add: Let_def)
    with True show ?thesis by (intro exI[of _ 0]) simp
  next
    case False
    with body have "gen st random (n + code_length) = Some code" by (simp add: Let_def)
    from IH[OF this] obtain k where k:
      "code = drawCode random (n + code_length + k * code_length) code_length"
      "findRoomByCode st code = None"
      "\<forall>j<k. findRoomByCode st (drawCode random (n + code_length + j * code_length) code_length) \<noteq> None"
      by blast
    have "\<forall>j<Suc k. findRoomByCode st (drawCode random (n + j * code_length) code_length) \<noteq> None"
    proof (intro allI impI)
      fix j assume "j < Suc k"
      show "findRoomByCode st (drawCode random (n + j * code_length) code_length) \<noteq> None"
      proof (cases j)
        case 0
        with False show ?thesis by simp
      next
        case (Suc i)
        with \<open>j < Suc k\<close> have "i < k" by simp
        with k(3) have "findRoomByCode st (drawCode random (n + code_length + i * code_length) code_length) \<noteq> None"
          by blast
        with Suc show ?thesis by (simp add: add.assoc)
      qed
    qed
    with k(1,2) show ?thesis
      by (intro exI[of _ "Suc k"]) (simp add: add.assoc)
  qed
qed

lemma generateRoomCode_Some_I:
  "findRoomByCode st (drawCode random (n + k * code_length) code_length) = None \<Longrightarrow>
   \<forall>j<k. findRoomByCode st (drawCode random (n + j * code_length) code_length) \<noteq> None \<Longrightarrow>
   generateRoomCode st random n = Some (drawCode random (n + k * code_length) code_length)"
proof (induction k arbitrary: n)
  case 0
  then show ?case by (subst generateRoomCode.simps) (simp add: Let_def)
next
  case (Suc k)
  from Suc.prems(2) have c0: "findRoomByCode st (drawCode random n code_length) \<noteq> None"
    by (metis add.right_neutral mult_zero_left zero_less_Suc)
  have free: "findRoomByCode st (drawCode random (n + code_length + k * code_length) code_length) = None"
    using Suc.prems(1) by (simp add: add.assoc)
  have coll: "\<forall>j<k. findRoomByCode st (drawCode random (n + code_length + j * code_length) code_length) \<noteq> None"
  proof (intro allI impI)
    fix j assume "j < k"
    then have "Suc j < Suc k" by simp
    with Suc.prems(2) have "findRoomByCode st (drawCode random (n + Suc j * code_length) code_length) \<noteq> None"
      by blast
    then show "findRoomByCode st (drawCode random (n + code_length + j * code_length) code_length) \<noteq> None"
      by (simp add: add.assoc)
  qed
  have "generateRoomCode st random n = generateRoomCode st random (n + code_length)"
    using c0 by (subst generateRoomCode.simps) (auto simp add: Let_def)
  also have "\<dots> = Some (drawCode random (n + code_length + k * code_length) code_length)"
    by (rule Suc.IH[OF free coll])
  finally show ?case by (simp add: add.assoc)
qed

lemma charAt_in_range:
  "0 \<le> r \<Longrightarrow> r < 1 \<Longrightarrow>
   \<exists>c. charAt \<lfloor>(r::rat) * of_nat (length characters)\<rfloor> = [c] \<and> c \<in> set characters"
proof -
  assume r: "0 \<le> r" "r < 1"
  let ?i = "\<lfloor>r * of_nat (length characters)\<rfloor>"
  have "0 \<le> r * of_nat (length characters)" using r by simp
  then have lo: "0 \<le> ?i" by simp
  have "r * of_nat (length characters) < of_nat (length characters)"
    using r by (simp add: characters_def)
  then have hi: "?i < int (length characters)"
    by (simp add: floor_less_iff)
  from lo hi have "nat ?i < length characters" by linarith
  then have "characters ! nat ?i \<in> set characters" by (rule nth_mem)
  with lo hi show ?thesis by (simp add: charAt_def)
qed

lemma drawCode_in_range:
  "\<forall>k. 0 \<le> random k \<and> random k < 1 \<Longrightarrow>
   length (drawCode random n i) = i \<and> set (drawCode random n i) \<subseteq> set characters"
proof (induction i)
  case 0
  then show ?case by simp
next
  case (Suc i)
  from Suc.prems have "0 \<le> random (n + i)" "random (n + i) < 1" by auto
  from charAt_in_range[OF this] obtain c where
    "charAt \<lfloor>random (n + i) * of_nat (length characters)\<rfloor> = [c]" "c \<in> set characters" by blast
  with Suc show ?case by simp
qed

lemma drawCode_alwaysZero: "drawCode alwaysZero n code_length = ''AAAAAA''"
  by (simp add: code_length_def eval_nat_numeral charAt_def characters_def alwaysZero_def)

lemma generate_emptyDb: "generateRoomCode emptyDb alwaysZero 0 = Some ''AAAAAA''"
  by (subst generateRoomCode.simps) (simp add: drawCode_alwaysZero findRoomByCode_def emptyDb_def)

section \<open>The example states are reachable\<close>

lemmas example_defs = alwaysZero_def zeroThenHalf_def testRoom_def member1_def member2_def member3_def
  dbCreated_def dbJoined_def dbThree_def smallRoom_def dbSmall_def dbSmallJoined_def negativeRoom_def dbNegative_def emptyDb_def

lemma alwaysZero_range: "\<forall>k. 0 \<le> alwaysZero k \<and> alwaysZero k < 1"
  by (simp add: alwaysZero_def)

lemma create_example:
  "createRoom emptyDb (Some ''Test'') None None 1 alwaysZero 100 = Some (Inr testRoom, dbCreated)"
  unfolding createRoom_def generate_emptyDb
  by (simp add: Let_def numeral_2_eq_2 findRoomByCode_def emptyDb_def testRoom_def member1_def dbCreated_def)

lemma create_small:
  "createRoom emptyDb (Some ''Test'') None (Some 2) 1 alwaysZero 100 = Some (Inr smallRoom, dbSmall)"
  unfolding createRoom_def generate_emptyDb
  by (simp add: Let_def numeral_2_eq_2 findRoomByCode_def emptyDb_def testRoom_def smallRoom_def member1_def dbSmall_def)

lemma create_negative:
  "createRoom emptyDb (Some ''Test'') None (Some (- 1)) 1 alwaysZero 100 = Some (Inr negativeRoom, dbNegative)"
  unfolding createRoom_def generate_emptyDb
  by (simp add: Let_def numeral_2_eq_2 findRoomByCode_def emptyDb_def testRoom_def negativeRoom_def member1_def dbNegative_def)

lemma create_half:
  "createRoom emptyDb (Some ''Test'') None (Some (3 / 2)) 1 alwaysZero 100 = Some (Inr halfRoom, dbHalf)"
  unfolding createRoom_def generate_emptyDb
  by (simp add: Let_def numeral_2_eq_2 findRoomByCode_def emptyDb_def testRoom_def halfRoom_def
      member1_def dbHalf_def)

lemma join_example2: "joinById dbCreated 0 2 200 = (Inr (testRoom, member2), dbJoined)"
  by (simp add: Let_def joinById_def joinFound_def query_defs example_defs)

lemma join_example3: "joinById dbJoined 0 3 300 = (Inr (testRoom, member3), dbThree)"
  by (simp add: Let_def joinById_def joinFound_def query_defs example_defs)

lemma join_small2: "joinById dbSmall 0 2 200 = (Inr (smallRoom, member2), dbSmallJoined)"
  by (simp add: Let_def joinById_def joinFound_def query_defs example_defs)

lemma join_half: "joinById dbHalf 0 2 200 = (Inr (halfRoom, member2), dbHalfJoined)"
  by (simp add: Let_def joinById_def joinFound_def query_defs example_defs halfRoom_def dbHalf_def
      dbHalfJoined_def)

lemma join_tie: "joinById dbJoined 0 3 200 = (Inr (testRoom, member3t), dbTie)"
  by (simp add: Let_def joinById_def joinFound_def query_defs example_defs member3t_def dbTie_def)

lemma leave_example: "leaveRoom dbThree 0 1 tie = (Inr (RoomKept 0 2), dbTransferred)"
  by (simp add: leaveRoom_def transferOwnership_def sortByJoinedAt_def query_defs example_defs
      dbTransferred_def Let_def)

lemma findRoomById_dbTie: "findRoomById dbTie 0 = Some testRoom"
  by (simp add: findRoomById_def dbTie_def testRoom_def)

lemma findMembership_dbTie: "findMembership dbTie 0 2 = Some member2"
  by (simp add: findMembership_def dbTie_def member1_def member2_def)

lemma findMembership_dbTie1: "findMembership dbTie 0 1 = Some member1"
  by (simp add: findMembership_def dbTie_def member1_def)

lemma sort_dbTie_ascending:
  "sortByJoinedAt userAscending (membersOf dbTie 0) = [member1, member2, member3t]"
  by (simp add: sortByJoinedAt_def userAscending_def membersOf_def dbTie_def member1_def
      member2_def member3_def member3t_def)

lemma sort_dbTie_descending:
  "sortByJoinedAt userDescending (membersOf dbTie 0) = [member1, member3t, member2]"
  by (simp add: sortByJoinedAt_def userDescending_def membersOf_def dbTie_def member1_def
      member2_def member3_def member3t_def)

lemma trim_code_example: "trim ''AAAAAA'' = ''AAAAAA''"
  by code_simp

lemma upper_code_example: "toUpperCase ''AAAAAA'' = codePoints ''AAAAAA''"
  by code_simp

lemma reachable_dbCreated: "reachable dbCreated"
  using reach_create[OF reach_empty alwaysZero_range create_example] .

lemma reachable_dbJoined: "reachable dbJoined"
  using reach_joinById[OF reachable_dbCreated join_example2] .

lemma reachable_dbThree: "reachable dbThree"
  using reach_joinById[OF reachable_dbJoined join_example3] .

lemma reachable_dbSmallJoined: "reachable dbSmallJoined"
  using reach_joinById[OF reach_create[OF reach_empty alwaysZero_range create_small] join_small2] .

lemma reachable_dbNegative: "reachable dbNegative"
  using reach_create[OF reach_empty alwaysZero_range create_negative] .

lemma reachable_dbHalf: "reachable dbHalf"
  using reach_create[OF reach_empty alwaysZero_range create_half] .

lemma reachable_dbTie: "reachable dbTie"
  using reach_joinById[OF reachable_dbJoined join_tie] .

lemma reachable_dbTransferred: "reachable dbTransferred"
  using reach_leave[OF reachable_dbThree leave_example] .

lemma drawCode_zeroThenHalf_0: "drawCode zeroThenHalf 0 code_length = ''AAAAAA''"
  by (simp add: code_length_def eval_nat_numeral charAt_def characters_def zeroThenHalf_def)

lemma drawCode_zeroThenHalf_6: "drawCode zeroThenHalf code_length code_length = ''SSSSSS''"
  by (simp add: code_length_def eval_nat_numeral charAt_def characters_def zeroThenHalf_def)

lemma findRoomByCode_dbCreated_A: "findRoomByCode dbCreated ''AAAAAA'' = Some testRoom"
  by (simp add: findRoomByCode_def dbCreated_def testRoom_def)

lemma findRoomByCode_dbCreated_S: "findRoomByCode dbCreated ''SSSSSS'' = None"
  by (simp add: findRoomByCode_def dbCreated_def testRoom_def)

lemma generate_second_attempt: "generateRoomCode dbCreated zeroThenHalf 0 = Some ''SSSSSS''"
  using generateRoomCode_Some_I[of dbCreated zeroThenHalf 0 1]
  by (simp add: drawCode_zeroThenHalf_0 drawCode_zeroThenHalf_6 findRoomByCode_dbCreated_A
      findRoomByCode_dbCreated_S)

section \<open>Room codes\<close>

text \<open>
  Claim C7. With every value of \<open>Math.random()\<close> in [0, 1), a code the generator returns
  has exactly 6 characters, all from the alphabet, which has none of 0, O, 1 and I, and no
  room of the database has that code.
\<close>

theorem generateRoomCode_postcondition:
  assumes "generateRoomCode st random n = Some code"
    and "\<forall>k. 0 \<le> random k \<and> random k < 1"
  shows "length code = 6
    \<and> set code \<subseteq> set characters
    \<and> CHR ''0'' \<notin> set characters \<and> CHR ''O'' \<notin> set characters
    \<and> CHR ''1'' \<notin> set characters \<and> CHR ''I'' \<notin> set characters
    \<and> (\<forall>r\<in>set (rooms st). roomCode r \<noteq> code)"
proof -
  from generateRoomCode_Some_D[OF assms(1)] obtain k where
    k: "code = drawCode random (n + k * code_length) code_length" "findRoomByCode st code = None"
    by blast
  from drawCode_in_range[OF assms(2)] k(1)
  have "length code = 6" "set code \<subseteq> set characters" by (simp_all add: code_length_def)
  moreover have "CHR ''0'' \<notin> set characters \<and> CHR ''O'' \<notin> set characters
    \<and> CHR ''1'' \<notin> set characters \<and> CHR ''I'' \<notin> set characters"
    by (simp add: characters_def)
  moreover have "\<forall>r\<in>set (rooms st). roomCode r \<noteq> code"
    using k(2) by (simp add: findRoomByCode_None)
  ultimately show ?thesis by simp
qed

theorem generateRoomCode_postcondition_witness:
  "generateRoomCode dbCreated zeroThenHalf 0 = Some ''SSSSSS''
   \<and> length ''SSSSSS'' = 6 \<and> set ''SSSSSS'' \<subseteq> set characters
   \<and> findRoomByCode dbCreated ''SSSSSS'' = None"
proof -
  have r: "\<forall>k. 0 \<le> zeroThenHalf k \<and> zeroThenHalf k < 1"
    by (simp add: zeroThenHalf_def)
  from generateRoomCode_postcondition[OF generate_second_attempt r]
  show ?thesis by (simp add: generate_second_attempt findRoomByCode_None)
qed

text \<open>
  Claim C6, as the code has it. The generator has no bound on its attempts and no failure
  value: it returns a code exactly when some attempt, after any number \<open>k\<close> of colliding
  ones, draws a code no room has, and the code returned is that first free candidate. When
  every candidate collides it does not return.
\<close>

theorem generateRoomCode_unbounded_retry:
  "generateRoomCode st random n = Some code \<longleftrightarrow>
     (\<exists>k. code = drawCode random (n + k * code_length) code_length
        \<and> findRoomByCode st code = None
        \<and> (\<forall>j<k. findRoomByCode st (drawCode random (n + j * code_length) code_length) \<noteq> None))"
  using generateRoomCode_Some_D generateRoomCode_Some_I by blast

theorem generateRoomCode_unbounded_retry_witness:
  "generateRoomCode dbCreated zeroThenHalf 0 = Some ''SSSSSS''"
proof -
  have "''SSSSSS'' = drawCode zeroThenHalf (0 + 1 * code_length) code_length
      \<and> findRoomByCode dbCreated ''SSSSSS'' = None
      \<and> (\<forall>j<1. findRoomByCode dbCreated (drawCode zeroThenHalf (0 + j * code_length) code_length) \<noteq> None)"
    by (simp add: drawCode_zeroThenHalf_0 drawCode_zeroThenHalf_6 findRoomByCode_dbCreated_A
        findRoomByCode_dbCreated_S)
  then show ?thesis
    using generateRoomCode_unbounded_retry[of dbCreated zeroThenHalf 0 "''SSSSSS''"] by blast
qed

text \<open>
  Claim C6 as stated fails: with the code AAAAAA taken and every draw 0, each candidate is
  AAAAAA again, the loop never ends, and neither the generator nor the create request
  gives an answer, a failure included.
\<close>

theorem generateRoomCode_never_exhausted:
  "generateRoomCode dbCreated alwaysZero 0 = None
   \<and> createRoom dbCreated (Some ''Second'') None None 2 alwaysZero 400 = None"
proof -
  have g: "generateRoomCode dbCreated alwaysZero 0 = None"
  proof (cases "generateRoomCode dbCreated alwaysZero 0")
    case None
    then show ?thesis .
  next
    case (Some code)
    from generateRoomCode_Some_D[OF Some] have "findRoomByCode dbCreated ''AAAAAA'' = None"
      by (auto simp: drawCode_alwaysZero)
    then show ?thesis by (simp add: findRoomByCode_dbCreated_A)
  qed
  then show ?thesis by (simp add: createRoom_def)
qed

section \<open>Sending a message\<close>

text \<open>
  Claim C8, as the code has it. The handler first answers 400 "Message content is
  required" when the content is absent or trims to empty, whoever the author is; then 404
  "Room not found" when the room does not exist; then 403 "You are not a member of this
  room" when the author has no membership in it. Each failure leaves the database as it
  was. Otherwise it stores the message, with the trimmed content, and answers with the
  stored message. Trimming is that of JavaScript on strings of characters up to U+00FF:
  content made of no-break spaces trims to empty as content made of spaces does.
\<close>

theorem sendMessage_check_order:
  "(body = None \<or> trim (the body) = '''' \<longrightarrow>
      sendMessage st roomId uid body now = (Inl (Failure 400 ''Message content is required''), st))
   \<and> (body \<noteq> None \<and> trim (the body) \<noteq> ''''
        \<and> \<not> (\<exists>r\<in>set (rooms st). room_id r = roomId) \<longrightarrow>
      sendMessage st roomId uid body now = (Inl (Failure 404 ''Room not found''), st))
   \<and> (body \<noteq> None \<and> trim (the body) \<noteq> ''''
        \<and> (\<exists>r\<in>set (rooms st). room_id r = roomId)
        \<and> \<not> (\<exists>m\<in>set (roomMembers st). member_room m = roomId \<and> member_user m = uid) \<longrightarrow>
      sendMessage st roomId uid body now =
        (Inl (Failure 403 ''You are not a member of this room''), st))
   \<and> (body \<noteq> None \<and> trim (the body) \<noteq> ''''
        \<and> (\<exists>r\<in>set (rooms st). room_id r = roomId)
        \<and> (\<exists>m\<in>set (roomMembers st). member_room m = roomId \<and> member_user m = uid) \<longrightarrow>
      fst (sendMessage st roomId uid body now) =
        Inr \<lparr>message_id = nextId st, message_room = roomId, author = uid,
             content = trim (the body), createdAt = now\<rparr>
      \<and> messages (snd (sendMessage st roomId uid body now)) =
        messages st @ [\<lparr>message_id = nextId st, message_room = roomId, author = uid,
             content = trim (the body), createdAt = now\<rparr>]
      \<and> rooms (snd (sendMessage st roomId uid body now)) = rooms st
      \<and> roomMembers (snd (sendMessage st roomId uid body now)) = roomMembers st)"
proof (intro conjI impI)
  assume "body = None \<or> trim (the body) = ''''"
  then show "sendMessage st roomId uid body now =
      (Inl (Failure 400 ''Message content is required''), st)"
    by (auto simp: sendMessage_def)
next
  assume a: "body \<noteq> None \<and> trim (the body) \<noteq> ''''
        \<and> \<not> (\<exists>r\<in>set (rooms st). room_id r = roomId)"
  then have "findRoomById st roomId = None" by (simp add: findRoomById_None)
  moreover from a have "body \<noteq> Some ''''" by (auto simp: trim_def)
  ultimately show "sendMessage st roomId uid body now = (Inl (Failure 404 ''Room not found''), st)"
    using a by (simp add: sendMessage_def)
next
  assume a: "body \<noteq> None \<and> trim (the body) \<noteq> ''''
        \<and> (\<exists>r\<in>set (rooms st). room_id r = roomId)
        \<and> \<not> (\<exists>m\<in>set (roomMembers st). member_room m = roomId \<and> member_user m = uid)"
  then obtain r where "findRoomById st roomId = Some r"
    using findRoomById_None[of st roomId] by fastforce
  moreover from a have "findMembership st roomId uid = None" by (simp add: findMembership_None)
  moreover from a have "body \<noteq> Some ''''" by (auto simp: trim_def)
  ultimately show "sendMessage st roomId uid body now =
        (Inl (Failure 403 ''You are not a member of this room''), st)"
    using a by (simp add: sendMessage_def)
next
  assume a: "body \<noteq> None \<and> trim (the body) \<noteq> ''''
        \<and> (\<exists>r\<in>set (rooms st). room_id r = roomId)
        \<and> (\<exists>m\<in>set (roomMembers st). member_room m = roomId \<and> member_user m = uid)"
  then obtain r where r: "findRoomById st roomId = Some r"
    using findRoomById_None[of st roomId] by fastforce
  from a obtain m where m: "findMembership st roomId uid = Some m"
    using findMembership_None[of st roomId uid] by fastforce
  from a have b: "body \<noteq> Some ''''" by (auto simp: trim_def)
  have s: "sendMessage st roomId uid body now =
     (Inr \<lparr>message_id = nextId st, message_room = roomId, author = uid,
             content = trim (the body), createdAt = now\<rparr>,
      st\<lparr>messages := messages st @ [\<lparr>message_id = nextId st, message_room = roomId, author = uid,
             content = trim (the body), createdAt = now\<rparr>], nextId := nextId st + 1\<rparr>)"
    using a b r m by (simp add: sendMessage_def Let_def)
  show "fst (sendMessage st roomId uid body now) =
        Inr \<lparr>message_id = nextId st, message_room = roomId, author = uid,
             content = trim (the body), createdAt = now\<rparr>"
    by (simp add: s)
  show "messages (snd (sendMessage st roomId uid body now)) =
        messages st @ [\<lparr>message_id = nextId st, message_room = roomId, author = uid,
             content = trim (the body), createdAt = now\<rparr>]"
    by (simp add: s)
  show "rooms (snd (sendMessage st roomId uid body now)) = rooms st" by (simp add: s)
  show "roomMembers (snd (sendMessage st roomId uid body now)) = roomMembers st" by (simp add: s)
qed

theorem sendMessage_check_order_witness:
  "fst (sendMessage dbCreated 0 1 (Some '' hi '') 500) =
     Inr \<lparr>message_id = 2, message_room = 0, author = 1, content = ''hi'', createdAt = 500\<rparr>
   \<and> messages (snd (sendMessage dbCreated 0 1 (Some '' hi '') 500)) =
     [\<lparr>message_id = 2, message_room = 0, author = 1, content = ''hi'', createdAt = 500\<rparr>]
   \<and> sendMessage dbCreated 0 2 (Some '' hi '') 500 =
     (Inl (Failure 403 ''You are not a member of this room''), dbCreated)
   \<and> sendMessage dbCreated 7 1 (Some '' hi '') 500 = (Inl (Failure 404 ''Room not found''), dbCreated)
   \<and> sendMessage dbCreated 0 1 (Some ''  '') 500 =
     (Inl (Failure 400 ''Message content is required''), dbCreated)
   \<and> sendMessage dbCreated 0 1 (Some [CHR 0xA0]) 500 =
     (Inl (Failure 400 ''Message content is required''), dbCreated)"
  using sendMessage_check_order[of "Some '' hi ''" dbCreated 0 1 500]
    sendMessage_check_order[of "Some '' hi ''" dbCreated 0 2 500]
    sendMessage_check_order[of "Some '' hi ''" dbCreated 7 1 500]
    sendMessage_check_order[of "Some ''  ''" dbCreated 0 1 500]
    sendMessage_check_order[of "Some [CHR 0xA0]" dbCreated 0 1 500]
  by (simp add: trim_hi trim_blank trim_nbsp dbCreated_def testRoom_def member1_def)

text \<open>
  Claim C8 as stated fails: user 2 is not a member of room 0, sends a blank message, and
  the answer is the validation failure, not the membership failure.
\<close>

theorem sendMessage_validation_before_membership:
  "findMembership dbCreated 0 2 = None
   \<and> fst (sendMessage dbCreated 0 2 (Some ''  '') 500) =
       Inl (Failure 400 ''Message content is required'')
   \<and> fst (sendMessage dbCreated 0 2 (Some ''  '') 500) \<noteq>
       Inl (Failure 403 ''You are not a member of this room'')"
  by (simp add: sendMessage_def trim_blank findMembership_def dbCreated_def member1_def)

section \<open>Room details\<close>

text \<open>
  Claim C9. For an existing room, the details request fails, with 403 "You are not a
  member of this room", exactly when the requester has no membership in the room. When it
  succeeds it answers with the room, with all the memberships of the room in ascending
  order of \<open>joinedAt\<close>, and with the requester's own membership. Memberships of equal
  \<open>joinedAt\<close> come in the order the store gives them, whatever that order is, and those
  the store ranks alike keep their stored order.
\<close>

theorem details_contract:
  assumes "findRoomById st roomId = Some room"
  shows "(details st roomId uid tie = Inl (Failure 403 ''You are not a member of this room'')
          \<longleftrightarrow> \<not> (\<exists>m\<in>set (roomMembers st). member_room m = roomId \<and> member_user m = uid))
    \<and> ((\<exists>e. details st roomId uid tie = Inl e)
          \<longleftrightarrow> \<not> (\<exists>m\<in>set (roomMembers st). member_room m = roomId \<and> member_user m = uid))
    \<and> ((\<exists>m\<in>set (roomMembers st). member_room m = roomId \<and> member_user m = uid) \<longrightarrow>
         (\<exists>members membership.
            details st roomId uid tie = Inr (room, members, membership)
            \<and> sorted (map joinedAt members)
            \<and> mset members = mset (membersOf st roomId)
            \<and> sorted (map (\<lambda>m. (joinedAt m, tie m)) members)
            \<and> (\<forall>t k. filter (\<lambda>m. joinedAt m = t \<and> tie m = k) members =
                       filter (\<lambda>m. joinedAt m = t \<and> tie m = k) (membersOf st roomId))
            \<and> membership \<in> set (roomMembers st)
            \<and> member_room membership = roomId \<and> member_user membership = uid))"
proof (cases "findMembership st roomId uid")
  case None
  then have "details st roomId uid tie = Inl (Failure 403 ''You are not a member of this room'')"
    by (simp add: details_def assms)
  with None show ?thesis by (simp add: findMembership_None)
next
  case (Some membership)
  let ?ms = "sortByJoinedAt tie (membersOf st roomId)"
  from Some have d: "details st roomId uid tie = Inr (room, ?ms, membership)"
    by (simp add: details_def assms)
  from Some have yes: "\<exists>m\<in>set (roomMembers st). member_room m = roomId \<and> member_user m = uid"
    using findMembership_None[of st roomId uid] by simp
  have s: "sorted (map joinedAt ?ms)" by (rule sortByJoinedAt_sorted)
  have p: "mset ?ms = mset (membersOf st roomId)" by (simp add: sortByJoinedAt_def)
  have s2: "sorted (map (\<lambda>m. (joinedAt m, tie m)) ?ms)" by (simp add: sortByJoinedAt_def)
  have st: "\<forall>t k. filter (\<lambda>m. joinedAt m = t \<and> tie m = k) ?ms =
             filter (\<lambda>m. joinedAt m = t \<and> tie m = k) (membersOf st roomId)"
  proof (intro allI)
    fix t k
    have "filter (\<lambda>m. (joinedAt m, tie m) = (t, k)) ?ms =
        filter (\<lambda>m. (joinedAt m, tie m) = (t, k)) (membersOf st roomId)"
      unfolding sortByJoinedAt_def by (rule sort_key_stable)
    then show "filter (\<lambda>m. joinedAt m = t \<and> tie m = k) ?ms =
             filter (\<lambda>m. joinedAt m = t \<and> tie m = k) (membersOf st roomId)" by simp
  qed
  have a: "details st roomId uid tie = Inl (Failure 403 ''You are not a member of this room'')
      \<longleftrightarrow> \<not> (\<exists>m\<in>set (roomMembers st). member_room m = roomId \<and> member_user m = uid)"
    using yes by (simp add: d)
  have b: "(\<exists>e. details st roomId uid tie = Inl e)
      \<longleftrightarrow> \<not> (\<exists>m\<in>set (roomMembers st). member_room m = roomId \<and> member_user m = uid)"
    using yes by (simp add: d)
  have c: "\<exists>members membership.
      details st roomId uid tie = Inr (room, members, membership)
      \<and> sorted (map joinedAt members)
      \<and> mset members = mset (membersOf st roomId)
      \<and> sorted (map (\<lambda>m. (joinedAt m, tie m)) members)
      \<and> (\<forall>t k. filter (\<lambda>m. joinedAt m = t \<and> tie m = k) members =
                 filter (\<lambda>m. joinedAt m = t \<and> tie m = k) (membersOf st roomId))
      \<and> membership \<in> set (roomMembers st)
      \<and> member_room membership = roomId \<and> member_user membership = uid"
    using d s p s2 st findMembership_Some[OF Some]
    by (intro exI[of _ ?ms] exI[of _ membership] conjI) simp_all
  from a b c show ?thesis by (intro conjI impI)
qed

theorem details_contract_witness:
  "findRoomById dbTie 0 = Some testRoom
   \<and> details dbTie 0 2 userAscending = Inr (testRoom, [member1, member2, member3t], member2)
   \<and> details dbTie 0 2 userDescending = Inr (testRoom, [member1, member3t, member2], member2)
   \<and> details dbTie 0 5 userAscending = Inl (Failure 403 ''You are not a member of this room'')"
proof -
  have r: "findRoomById dbTie 0 = Some testRoom"
    by (simp add: findRoomById_def dbTie_def testRoom_def)
  have "details dbTie 0 5 userAscending = Inl (Failure 403 ''You are not a member of this room'')"
    using details_contract[OF r, of 5 userAscending]
    by (simp add: dbTie_def member1_def member2_def member3_def member3t_def)
  moreover have "details dbTie 0 2 userAscending =
      Inr (testRoom, [member1, member2, member3t], member2)"
    unfolding details_def r by (simp add: findMembership_dbTie sort_dbTie_ascending)
  moreover have "details dbTie 0 2 userDescending =
      Inr (testRoom, [member1, member3t, member2], member2)"
    unfolding details_def r by (simp add: findMembership_dbTie sort_dbTie_descending)
  ultimately show ?thesis using r by simp
qed

section \<open>The last member leaves\<close>

text \<open>
  Claim C2. When the only member of a room leaves, the answer is \<open>{deleted: true}\<close>, the
  messages of the room, its memberships and the room itself are gone from the database,
  and a details request for that room id, by any requester, is answered 404 "Room not
  found".
\<close>

theorem last_leave_deletes_everything:
  assumes "findRoomById st roomId = Some room"
    and "membersOf st roomId = [membership]"
    and "member_user membership = uid"
  shows "fst (leaveRoom st roomId uid tie) = Inr RoomDeleted
    \<and> messagesOf (snd (leaveRoom st roomId uid tie)) roomId = []
    \<and> membersOf (snd (leaveRoom st roomId uid tie)) roomId = []
    \<and> findRoomById (snd (leaveRoom st roomId uid tie)) roomId = None
    \<and> details (snd (leaveRoom st roomId uid tie)) roomId requester tie' =
        Inl (Failure 404 ''Room not found'')"
proof -
  have m: "findMembership st roomId uid = Some membership"
    using assms(2,3) unfolding findMembership_def membersOf_def
    by (rule find_filter_single)
  have l: "leaveRoom st roomId uid tie =
      (Inr RoomDeleted,
       st\<lparr>messages := filter (\<lambda>x. message_room x \<noteq> roomId) (messages st),
          roomMembers := filter (\<lambda>m. member_room m \<noteq> roomId) (roomMembers st),
          rooms := filter (\<lambda>r. room_id r \<noteq> roomId) (rooms st)\<rparr>)"
    by (simp add: leaveRoom_def assms(1,2) m sortByJoinedAt_length)
  have g: "findRoomById (snd (leaveRoom st roomId uid tie)) roomId = None"
    unfolding l findRoomById_def by (simp add: find_None_filter)
  show ?thesis
    using g by (simp add: l messagesOf_def membersOf_def details_def)
qed

theorem last_leave_deletes_everything_witness:
  "membersOf dbChat 0 = [member1]
   \<and> messagesOf dbChat 0 = [hiMessage]
   \<and> fst (leaveRoom dbChat 0 1 userAscending) = Inr RoomDeleted
   \<and> messagesOf (snd (leaveRoom dbChat 0 1 userAscending)) 0 = []
   \<and> membersOf (snd (leaveRoom dbChat 0 1 userAscending)) 0 = []
   \<and> findRoomById (snd (leaveRoom dbChat 0 1 userAscending)) 0 = None
   \<and> details (snd (leaveRoom dbChat 0 1 userAscending)) 0 1 userAscending =
       Inl (Failure 404 ''Room not found'')"
proof -
  have r: "findRoomById dbChat 0 = Some testRoom"
    by (simp add: findRoomById_def dbChat_def testRoom_def)
  have m: "membersOf dbChat 0 = [member1]"
    by (simp add: membersOf_def dbChat_def member1_def)
  have u: "member_user member1 = 1" by (simp add: member1_def)
  have c: "messagesOf dbChat 0 = [hiMessage]"
    by (simp add: messagesOf_def dbChat_def hiMessage_def)
  from last_leave_deletes_everything[OF r m u, of userAscending 1 userAscending] m c
  show ?thesis by simp
qed

section \<open>The invariants hold in every reachable state\<close>

text \<open>Creating a room with its owner's membership.\<close>

lemma inv_add_room:
  assumes inv: "db_inv st"
    and room: "room_id room = nextId st" "owner room = uid"
      "findRoomByCode st (roomCode room) = None"
      "length (roomCode room) = 6" "set (roomCode room) \<subseteq> set characters"
    and member: "member_id member = nextId st + 1" "member_room member = nextId st"
      "member_user member = uid" "role member = Owner"
  shows "db_inv (st\<lparr>rooms := rooms st @ [room], roomMembers := roomMembers st @ [member],
                    nextId := nextId st + 2\<rparr>)"
proof -
  let ?st' = "st\<lparr>rooms := rooms st @ [room], roomMembers := roomMembers st @ [member],
                    nextId := nextId st + 2\<rparr>"
  from inv have i: "ids_ok st" and p: "pairs_ok st" and ow: "owner_ok st" and c: "codes_ok st"
    and cap: "capacity_ok st" by (simp_all add: db_inv_def)
  have fresh_room: "\<forall>m\<in>set (roomMembers st). member_room m \<noteq> nextId st"
    using i by (auto simp: ids_ok_def)
  have fresh_rid: "\<forall>r\<in>set (rooms st). room_id r \<noteq> nextId st"
    using i by (auto simp: ids_ok_def)
  have 1: "ids_ok ?st'"
    using i room member by (auto simp: ids_ok_def)
  have 2: "pairs_ok ?st'"
    using p member fresh_room by (auto simp: pairs_ok_def)
  have 3: "owner_ok ?st'"
    unfolding owner_ok_def
  proof
    fix r assume "r \<in> set (rooms ?st')"
    then consider "r \<in> set (rooms st)" | "r = room" by auto
    then show "(\<exists>m\<in>set (roomMembers ?st'). member_room m = room_id r \<and> member_user m = owner r)
        \<and> (\<forall>m\<in>set (roomMembers ?st'). member_room m = room_id r \<longrightarrow>
              (role m = Owner) = (member_user m = owner r))"
    proof cases
      case 1
      with fresh_rid have "room_id r \<noteq> nextId st" by blast
      with 1 ow member show ?thesis by (auto simp: owner_ok_def)
    next
      case 2
      with room member fresh_room show ?thesis by auto
    qed
  qed
  have 4: "codes_ok ?st'"
    using c room by (auto simp: codes_ok_def findRoomByCode_def find_None_iff)
  have 5: "capacity_ok ?st'"
    unfolding capacity_ok_def
  proof (intro ballI impI)
    fix r assume r: "r \<in> set (rooms ?st')" and m: "maxMembers r \<in> \<int> \<and> 1 \<le> maxMembers r"
    from r consider "r \<in> set (rooms st)" | "r = room" by auto
    then show "of_nat (countMembers ?st' (room_id r)) \<le> maxMembers r"
    proof cases
      case 1
      with fresh_rid have "room_id r \<noteq> nextId st" by blast
      with 1 cap m member show ?thesis
        by (simp add: capacity_ok_def countMembers_def membersOf_def)
    next
      case 2
      have "filter (\<lambda>m. member_room m = nextId st) (roomMembers st) = []"
        using fresh_room by (simp add: filter_empty_conv)
      with 2 room member m show ?thesis
        by (simp add: countMembers_def membersOf_def)
    qed
  qed
  from 1 2 3 4 5 show ?thesis by (simp add: db_inv_def)
qed

text \<open>A new membership with role member.\<close>

lemma inv_add_member:
  assumes inv: "db_inv st"
    and room: "room \<in> set (rooms st)"
    and cnt: "\<not> maxMembers room \<le> of_nat (countMembers st (room_id room))"
    and none: "findMembership st (room_id room) uid = None"
    and member: "member_id member = nextId st" "member_room member = room_id room"
      "member_user member = uid" "role member = Member"
  shows "db_inv (st\<lparr>roomMembers := roomMembers st @ [member], nextId := nextId st + 1\<rparr>)"
proof -
  let ?st' = "st\<lparr>roomMembers := roomMembers st @ [member], nextId := nextId st + 1\<rparr>"
  from inv have i: "ids_ok st" and p: "pairs_ok st" and ow: "owner_ok st" and c: "codes_ok st"
    and cap: "capacity_ok st" by (simp_all add: db_inv_def)
  have no: "\<forall>m\<in>set (roomMembers st). \<not> (member_room m = room_id room \<and> member_user m = uid)"
    using none by (auto simp: findMembership_def find_None_iff)
  have 1: "ids_ok ?st'"
    using i room member by (auto simp: ids_ok_def)
  have 2: "pairs_ok ?st'"
    using p member no by (auto simp: pairs_ok_def)
  have own: "uid \<noteq> owner room"
    using ow room no by (auto simp: owner_ok_def)
  have 3: "owner_ok ?st'"
    unfolding owner_ok_def
  proof
    fix r assume r: "r \<in> set (rooms ?st')"
    then have r': "r \<in> set (rooms st)" by simp
    show "(\<exists>m\<in>set (roomMembers ?st'). member_room m = room_id r \<and> member_user m = owner r)
        \<and> (\<forall>m\<in>set (roomMembers ?st'). member_room m = room_id r \<longrightarrow>
              (role m = Owner) = (member_user m = owner r))"
    proof (cases "room_id r = room_id room")
      case True
      with i r' room have "r = room" by (auto simp: ids_ok_def distinct_map inj_on_def)
      with ow r' member own show ?thesis by (auto simp: owner_ok_def)
    next
      case False
      with ow r' member show ?thesis by (auto simp: owner_ok_def)
    qed
  qed
  have 4: "codes_ok ?st'"
    using c by (simp add: codes_ok_def)
  have 5: "capacity_ok ?st'"
    unfolding capacity_ok_def
  proof (intro ballI impI)
    fix r assume r: "r \<in> set (rooms ?st')" and m: "maxMembers r \<in> \<int> \<and> 1 \<le> maxMembers r"
    then have r': "r \<in> set (rooms st)" by simp
    show "of_nat (countMembers ?st' (room_id r)) \<le> maxMembers r"
    proof (cases "room_id r = room_id room")
      case True
      with i r' room have "r = room" by (auto simp: ids_ok_def distinct_map inj_on_def)
      with below_whole_limit[of "maxMembers room" "countMembers st (room_id room)"] cnt member m
      show ?thesis by (simp add: countMembers_append)
    next
      case False
      with cap r' m member show ?thesis by (simp add: countMembers_append capacity_ok_def)
    qed
  qed
  from 1 2 3 4 5 show ?thesis by (simp add: db_inv_def)
qed

text \<open>Updates that leave ids, rooms, users, roles, codes, owners and limits alone.\<close>

lemma inv_map_members:
  assumes inv: "db_inv st"
    and f: "\<And>m. member_id (f m) = member_id m \<and> member_room (f m) = member_room m
              \<and> member_user (f m) = member_user m \<and> role (f m) = role m"
  shows "db_inv (st\<lparr>roomMembers := map f (roomMembers st)\<rparr>)"
proof -
  from inv have i: "ids_ok st" and p: "pairs_ok st" and ow: "owner_ok st" and c: "codes_ok st"
    and cap: "capacity_ok st" by (simp_all add: db_inv_def)
  have 1: "ids_ok (st\<lparr>roomMembers := map f (roomMembers st)\<rparr>)"
    using i by (simp add: ids_ok_def o_def f)
  have 2: "pairs_ok (st\<lparr>roomMembers := map f (roomMembers st)\<rparr>)"
    using p by (simp add: pairs_ok_def o_def f)
  have 3: "owner_ok (st\<lparr>roomMembers := map f (roomMembers st)\<rparr>)"
    using ow by (simp add: owner_ok_def f)
  have 4: "codes_ok (st\<lparr>roomMembers := map f (roomMembers st)\<rparr>)"
    using c by (simp add: codes_ok_def)
  have 5: "capacity_ok (st\<lparr>roomMembers := map f (roomMembers st)\<rparr>)"
    using cap by (simp add: capacity_ok_def countMembers_def membersOf_def o_def f)
  from 1 2 3 4 5 show ?thesis by (simp add: db_inv_def)
qed

lemma inv_map_rooms:
  assumes inv: "db_inv st"
    and f: "\<And>r. room_id (f r) = room_id r \<and> roomCode (f r) = roomCode r
              \<and> owner (f r) = owner r \<and> maxMembers (f r) = maxMembers r"
  shows "db_inv (st\<lparr>rooms := map f (rooms st)\<rparr>)"
proof -
  from inv have i: "ids_ok st" and p: "pairs_ok st" and ow: "owner_ok st" and c: "codes_ok st"
    and cap: "capacity_ok st" by (simp_all add: db_inv_def)
  have 1: "ids_ok (st\<lparr>rooms := map f (rooms st)\<rparr>)"
    using i by (simp add: ids_ok_def o_def f)
  have 2: "pairs_ok (st\<lparr>rooms := map f (rooms st)\<rparr>)"
    using p by (simp add: pairs_ok_def)
  have 3: "owner_ok (st\<lparr>rooms := map f (rooms st)\<rparr>)"
    using ow by (simp add: owner_ok_def f)
  have 4: "codes_ok (st\<lparr>rooms := map f (rooms st)\<rparr>)"
    using c by (simp add: codes_ok_def o_def f)
  have 5: "capacity_ok (st\<lparr>rooms := map f (rooms st)\<rparr>)"
    using cap by (simp add: capacity_ok_def countMembers_def membersOf_def f)
  from 1 2 3 4 5 show ?thesis by (simp add: db_inv_def)
qed

lemma inv_add_message:
  assumes inv: "db_inv st"
  shows "db_inv (st\<lparr>messages := ms, nextId := nextId st + 1\<rparr>)"
proof -
  from inv have i: "ids_ok st" and p: "pairs_ok st" and ow: "owner_ok st" and c: "codes_ok st"
    and cap: "capacity_ok st" by (simp_all add: db_inv_def)
  have 1: "ids_ok (st\<lparr>messages := ms, nextId := nextId st + 1\<rparr>)"
    using i by (auto simp: ids_ok_def)
  have 5: "capacity_ok (st\<lparr>messages := ms, nextId := nextId st + 1\<rparr>)"
    using cap by (simp add: capacity_ok_def countMembers_def membersOf_def)
  from 1 p ow c 5 show ?thesis
    by (simp add: db_inv_def pairs_ok_def owner_ok_def codes_ok_def)
qed

text \<open>The last member leaves: the room and everything of it are deleted.\<close>

lemma inv_delete_room:
  assumes inv: "db_inv st"
  shows "db_inv (st\<lparr>messages := ms,
                    roomMembers := filter (\<lambda>m. member_room m \<noteq> roomId) (roomMembers st),
                    rooms := filter (\<lambda>r. room_id r \<noteq> roomId) (rooms st)\<rparr>)"
proof -
  let ?st' = "st\<lparr>messages := ms,
                    roomMembers := filter (\<lambda>m. member_room m \<noteq> roomId) (roomMembers st),
                    rooms := filter (\<lambda>r. room_id r \<noteq> roomId) (rooms st)\<rparr>"
  from inv have i: "ids_ok st" and p: "pairs_ok st" and ow: "owner_ok st" and c: "codes_ok st"
    and cap: "capacity_ok st" by (simp_all add: db_inv_def)
  have 1: "ids_ok ?st'"
    using i by (auto simp: ids_ok_def distinct_map_filter)
  have 2: "pairs_ok ?st'"
    using p by (simp add: pairs_ok_def distinct_map_filter)
  have 3: "owner_ok ?st'"
    using ow by (fastforce simp: owner_ok_def)
  have 4: "codes_ok ?st'"
    using c by (auto simp: codes_ok_def distinct_map_filter)
  have 5: "capacity_ok ?st'"
    unfolding capacity_ok_def
  proof (intro ballI impI)
    fix r assume r: "r \<in> set (rooms ?st')" and m: "maxMembers r \<in> \<int> \<and> 1 \<le> maxMembers r"
    then have r': "r \<in> set (rooms st)" "room_id r \<noteq> roomId" by auto
    have "filter (\<lambda>m. member_room m = room_id r) (filter (\<lambda>m. member_room m \<noteq> roomId) (roomMembers st))
        = filter (\<lambda>m. member_room m = room_id r) (roomMembers st)"
      using r'(2) by (auto intro: filter_cong)
    with cap r' m show "of_nat (countMembers ?st' (room_id r)) \<le> maxMembers r"
      by (simp add: capacity_ok_def countMembers_def membersOf_def)
  qed
  from 1 2 3 4 5 show ?thesis by (simp add: db_inv_def)
qed

lemma inv_unique:
  assumes "db_inv st"
  shows "\<And>a b. a \<in> set (roomMembers st) \<Longrightarrow> b \<in> set (roomMembers st) \<Longrightarrow>
            member_id a = member_id b \<Longrightarrow> a = b"
    and "\<And>a b. a \<in> set (roomMembers st) \<Longrightarrow> b \<in> set (roomMembers st) \<Longrightarrow>
            member_room a = member_room b \<Longrightarrow> member_user a = member_user b \<Longrightarrow> a = b"
    and "\<And>a b. a \<in> set (rooms st) \<Longrightarrow> b \<in> set (rooms st) \<Longrightarrow> room_id a = room_id b \<Longrightarrow> a = b"
    and "\<And>a b. a \<in> set (rooms st) \<Longrightarrow> b \<in> set (rooms st) \<Longrightarrow> roomCode a = roomCode b \<Longrightarrow> a = b"
proof -
  from assms have i: "inj_on member_id (set (roomMembers st))"
    and p: "inj_on (\<lambda>m. (member_room m, member_user m)) (set (roomMembers st))"
    and r: "inj_on room_id (set (rooms st))"
    and c: "inj_on roomCode (set (rooms st))"
    by (simp_all add: db_inv_def ids_ok_def pairs_ok_def codes_ok_def distinct_map)
  show "\<And>a b. a \<in> set (roomMembers st) \<Longrightarrow> b \<in> set (roomMembers st) \<Longrightarrow>
            member_id a = member_id b \<Longrightarrow> a = b"
    using i by (auto dest: inj_onD)
  show "\<And>a b. a \<in> set (roomMembers st) \<Longrightarrow> b \<in> set (roomMembers st) \<Longrightarrow>
            member_room a = member_room b \<Longrightarrow> member_user a = member_user b \<Longrightarrow> a = b"
    using p by (auto dest: inj_onD)
  show "\<And>a b. a \<in> set (rooms st) \<Longrightarrow> b \<in> set (rooms st) \<Longrightarrow> room_id a = room_id b \<Longrightarrow> a = b"
    using r by (auto dest: inj_onD)
  show "\<And>a b. a \<in> set (rooms st) \<Longrightarrow> b \<in> set (rooms st) \<Longrightarrow> roomCode a = roomCode b \<Longrightarrow> a = b"
    using c by (auto dest: inj_onD)
qed

text \<open>A member who is not the owner leaves.\<close>

lemma inv_delete_member:
  assumes inv: "db_inv st"
    and r: "r \<in> set (rooms st)"
    and m: "m \<in> set (roomMembers st)" "member_room m = room_id r" "member_user m \<noteq> owner r"
  shows "db_inv (st\<lparr>roomMembers := filter (\<lambda>x. member_id x \<noteq> member_id m) (roomMembers st)\<rparr>)"
proof -
  let ?st' = "st\<lparr>roomMembers := filter (\<lambda>x. member_id x \<noteq> member_id m) (roomMembers st)\<rparr>"
  from inv have i: "ids_ok st" and p: "pairs_ok st" and ow: "owner_ok st" and c: "codes_ok st"
    and cap: "capacity_ok st" by (simp_all add: db_inv_def)
  note u = inv_unique[OF inv]
  have 1: "ids_ok ?st'"
    using i by (auto simp: ids_ok_def distinct_map_filter)
  have 2: "pairs_ok ?st'"
    using p by (simp add: pairs_ok_def distinct_map_filter)
  have 3: "owner_ok ?st'"
    unfolding owner_ok_def
  proof
    fix x assume "x \<in> set (rooms ?st')"
    then have x: "x \<in> set (rooms st)" by simp
    from ow x obtain mo where mo: "mo \<in> set (roomMembers st)" "member_room mo = room_id x"
      "member_user mo = owner x" by (auto simp: owner_ok_def)
    have "member_id mo \<noteq> member_id m"
    proof
      assume "member_id mo = member_id m"
      with u(1) mo(1) m(1) have "mo = m" by blast
      with mo m(2) have "room_id x = room_id r" by simp
      with u(3) x r have "x = r" by blast
      with mo \<open>mo = m\<close> m(3) show False by simp
    qed
    with mo have "\<exists>k\<in>set (roomMembers ?st'). member_room k = room_id x \<and> member_user k = owner x"
      by auto
    moreover have "\<forall>k\<in>set (roomMembers ?st'). member_room k = room_id x \<longrightarrow>
              (role k = Owner) = (member_user k = owner x)"
      using ow x by (auto simp: owner_ok_def)
    ultimately show "(\<exists>k\<in>set (roomMembers ?st'). member_room k = room_id x \<and> member_user k = owner x)
        \<and> (\<forall>k\<in>set (roomMembers ?st'). member_room k = room_id x \<longrightarrow>
              (role k = Owner) = (member_user k = owner x))" by simp
  qed
  have 4: "codes_ok ?st'"
    using c by (simp add: codes_ok_def)
  have 5: "capacity_ok ?st'"
    unfolding capacity_ok_def
  proof (intro ballI impI)
    fix x assume x: "x \<in> set (rooms ?st')" and mx: "maxMembers x \<in> \<int> \<and> 1 \<le> maxMembers x"
    have "countMembers ?st' (room_id x) \<le> countMembers st (room_id x)"
      by (simp add: countMembers_def membersOf_def length_filter_conj_le)
    then have "(of_nat (countMembers ?st' (room_id x)) :: rat) \<le> of_nat (countMembers st (room_id x))"
      by simp
    moreover from cap x mx have "of_nat (countMembers st (room_id x)) \<le> maxMembers x"
      by (simp add: capacity_ok_def)
    ultimately show "of_nat (countMembers ?st' (room_id x)) \<le> maxMembers x" by simp
  qed
  from 1 2 3 4 5 show ?thesis by (simp add: db_inv_def)
qed

text \<open>The owner leaves a room that has other members.\<close>

lemma inv_transfer_delete_gen:
  assumes inv: "db_inv st"
    and r: "r \<in> set (rooms st)"
    and old: "old \<in> set (roomMembers st)" "member_room old = room_id r" "member_user old = owner r"
    and new: "new \<in> set (roomMembers st)" "member_room new = room_id r" "member_user new \<noteq> owner r"
    and fm: "\<And>m. member_id (fm m) = member_id m \<and> member_room (fm m) = member_room m
        \<and> member_user (fm m) = member_user m
        \<and> role (fm m) = (if member_id m = member_id new then Owner else role m)"
    and fr: "\<And>x. room_id (fr x) = room_id x \<and> roomCode (fr x) = roomCode x
        \<and> maxMembers (fr x) = maxMembers x
        \<and> owner (fr x) = (if room_id x = room_id r then member_user new else owner x)"
  shows "db_inv (st\<lparr>rooms := map fr (rooms st),
                    roomMembers := filter (\<lambda>m. member_id m \<noteq> member_id old)
                      (map fm (roomMembers st))\<rparr>)"
proof -
  let ?ms = "filter (\<lambda>m. member_id m \<noteq> member_id old) (map fm (roomMembers st))"
  let ?st' = "st\<lparr>rooms := map fr (rooms st), roomMembers := ?ms\<rparr>"
  from inv have i: "ids_ok st" and p: "pairs_ok st" and ow: "owner_ok st" and c: "codes_ok st"
    and cap: "capacity_ok st" by (simp_all add: db_inv_def)
  note u = inv_unique[OF inv]
  have mid: "map member_id (map fm (roomMembers st)) = map member_id (roomMembers st)"
    by (simp add: o_def fm)
  have mpair: "map (\<lambda>m. (member_room m, member_user m)) (map fm (roomMembers st))
      = map (\<lambda>m. (member_room m, member_user m)) (roomMembers st)"
    by (simp add: o_def fm)
  have rid: "map room_id (map fr (rooms st)) = map room_id (rooms st)"
    by (simp add: o_def fr)
  have rcode: "map roomCode (map fr (rooms st)) = map roomCode (rooms st)"
    by (simp add: o_def fr)
  have ms_set: "set ?ms = fm ` {m \<in> set (roomMembers st). member_id m \<noteq> member_id old}"
    by (auto simp: fm)
  have 1: "ids_ok ?st'"
  proof -
    have "distinct (map member_id ?ms)"
      using i mid by (metis distinct_map_filter ids_ok_def)
    moreover have "distinct (map room_id (map fr (rooms st)))"
      using i by (simp add: ids_ok_def o_def fr)
    moreover have "\<forall>x\<in>set (map fr (rooms st)). room_id x < nextId st"
      using i by (simp add: ids_ok_def fr)
    moreover have "\<forall>m\<in>set ?ms. member_id m < nextId st \<and> member_room m < nextId st"
      using i unfolding ms_set by (simp add: ids_ok_def fm)
    ultimately show ?thesis by (simp add: ids_ok_def)
  qed
  have 2: "pairs_ok ?st'"
  proof -
    have "distinct (map (\<lambda>m. (member_room m, member_user m)) ?ms)"
      using p mpair by (metis distinct_map_filter pairs_ok_def)
    then show ?thesis by (simp add: pairs_ok_def)
  qed
  have neq: "member_id new \<noteq> member_id old"
    using u(1)[OF new(1) old(1)] old new by auto
  have 3: "owner_ok ?st'"
    unfolding owner_ok_def
  proof
    fix y assume "y \<in> set (rooms ?st')"
    then obtain x where x: "x \<in> set (rooms st)" "y = fr x" by auto
    show "(\<exists>k\<in>set (roomMembers ?st'). member_room k = room_id y \<and> member_user k = owner y)
        \<and> (\<forall>k\<in>set (roomMembers ?st'). member_room k = room_id y \<longrightarrow>
              (role k = Owner) = (member_user k = owner y))"
    proof (cases "room_id x = room_id r")
      case True
      have y: "room_id y = room_id r" "owner y = member_user new" using x True by (simp_all add: fr)
      have "fm new \<in> set ?ms" unfolding ms_set using new(1) neq by blast
      moreover have "member_room (fm new) = room_id y \<and> member_user (fm new) = owner y"
        using y new(2) by (simp add: fm)
      ultimately have ex: "\<exists>k\<in>set (roomMembers ?st'). member_room k = room_id y \<and> member_user k = owner y"
        by (intro bexI[of _ "fm new"]) simp_all
      have "(role k = Owner) = (member_user k = owner y)"
        if k: "k \<in> set ?ms" "member_room k = room_id y" for k
      proof -
        from k(1) obtain m where m: "m \<in> set (roomMembers st)" "k = fm m" "member_id m \<noteq> member_id old"
          unfolding ms_set by blast
        show ?thesis
        proof (cases "member_id m = member_id new")
          case True
          with u(1)[OF m(1) new(1)] have "m = new" by simp
          with m y show ?thesis by (simp add: fm)
        next
          case False
          from k(2) m(2) y have mr: "member_room m = room_id r" by (simp add: fm)
          from m(3) have "m \<noteq> old" by auto
          with u(2)[OF m(1) old(1)] old mr have a: "member_user m \<noteq> owner r" by auto
          from False have "m \<noteq> new" by auto
          with u(2)[OF m(1) new(1)] new(2) mr have b: "member_user m \<noteq> member_user new" by auto
          from ow r m(1) mr a have "role m \<noteq> Owner" by (auto simp: owner_ok_def)
          with b False m(2) y show ?thesis by (simp add: fm)
        qed
      qed
      with ex show ?thesis by simp
    next
      case False
      then have y: "room_id y = room_id x" "owner y = owner x" using x by (simp_all add: fr)
      from ow x obtain mo where mo: "mo \<in> set (roomMembers st)" "member_room mo = room_id x"
        "member_user mo = owner x" by (auto simp: owner_ok_def)
      from mo False old new u(1)[OF mo(1) old(1)] u(1)[OF mo(1) new(1)]
      have ne: "member_id mo \<noteq> member_id old" "member_id mo \<noteq> member_id new"
        by auto
      with mo have "fm mo \<in> set ?ms" unfolding ms_set by blast
      moreover have "member_room (fm mo) = room_id y \<and> member_user (fm mo) = owner y"
        using mo y by (simp add: fm)
      ultimately have ex: "\<exists>k\<in>set (roomMembers ?st'). member_room k = room_id y \<and> member_user k = owner y"
        by (intro bexI[of _ "fm mo"]) simp_all
      have "(role k = Owner) = (member_user k = owner y)"
        if k: "k \<in> set ?ms" "member_room k = room_id y" for k
      proof -
        from k(1) obtain m where m: "m \<in> set (roomMembers st)" "k = fm m"
          unfolding ms_set by blast
        with k(2) y have mr: "member_room m = room_id x" by (simp add: fm)
        with False new u(1)[OF m(1) new(1)] have "member_id m \<noteq> member_id new" by auto
        with m have "role k = role m" "member_user k = member_user m" by (simp_all add: fm)
        with ow x(1) m(1) mr y show ?thesis by (auto simp: owner_ok_def)
      qed
      with ex show ?thesis by simp
    qed
  qed
  have 4: "codes_ok ?st'"
  proof -
    have "distinct (map roomCode (map fr (rooms st)))"
      using c by (simp add: codes_ok_def o_def fr)
    moreover have "\<forall>x\<in>set (map fr (rooms st)). length (roomCode x) = 6 \<and> set (roomCode x) \<subseteq> set characters"
      using c by (simp add: codes_ok_def fr)
    ultimately show ?thesis by (simp add: codes_ok_def)
  qed
  have 5: "capacity_ok ?st'"
    unfolding capacity_ok_def
  proof (intro ballI impI)
    fix y assume y: "y \<in> set (rooms ?st')" and my: "maxMembers y \<in> \<int> \<and> 1 \<le> maxMembers y"
    then obtain x where x: "x \<in> set (rooms st)" "y = fr x" by auto
    with my have mx: "maxMembers x \<in> \<int> \<and> 1 \<le> maxMembers x" "room_id y = room_id x"
      "maxMembers y = maxMembers x"
      by (simp_all add: fr)
    have "countMembers ?st' (room_id x) \<le> countMembers st (room_id x)"
      by (simp add: countMembers_def membersOf_def filter_map o_def fm length_filter_conj_le)
    then have "(of_nat (countMembers ?st' (room_id x)) :: rat) \<le> of_nat (countMembers st (room_id x))"
      by simp
    moreover from cap x(1) mx(1) have "of_nat (countMembers st (room_id x)) \<le> maxMembers x"
      by (simp add: capacity_ok_def)
    ultimately show "of_nat (countMembers ?st' (room_id y)) \<le> maxMembers y"
      using mx(2,3) by simp
  qed
  from 1 2 3 4 5 show ?thesis by (simp add: db_inv_def)
qed

lemma inv_transfer_delete:
  assumes inv: "db_inv st"
    and r: "r \<in> set (rooms st)"
    and old: "old \<in> set (roomMembers st)" "member_room old = room_id r" "member_user old = owner r"
    and new: "new \<in> set (roomMembers st)" "member_room new = room_id r" "member_user new \<noteq> owner r"
  shows "db_inv (st\<lparr>rooms := map (\<lambda>x. if room_id x = room_id r
                                       then x\<lparr>owner := member_user new\<rparr> else x) (rooms st),
                    roomMembers := filter (\<lambda>m. member_id m \<noteq> member_id old)
                      (map (\<lambda>m. if member_id m = member_id new then m\<lparr>role := Owner\<rparr> else m)
                         (roomMembers st))\<rparr>)"
  by (rule inv_transfer_delete_gen[OF inv r old new]) simp_all

lemma inv_emptyDb: "db_inv emptyDb"
  by (simp add: db_inv_def ids_ok_def pairs_ok_def owner_ok_def codes_ok_def capacity_ok_def emptyDb_def)

lemma inv_createRoom:
  assumes inv: "db_inv st"
    and rnd: "\<forall>k. 0 \<le> random k \<and> random k < 1"
    and c: "createRoom st name desc maxM uid random now = Some (res, st')"
  shows "db_inv st'"
proof (cases "name = None \<or> name = Some ''''")
  case True
  with c have "st' = st" by (auto simp: createRoom_def)
  with inv show ?thesis by simp
next
  case False
  with c obtain code where g: "generateRoomCode st random 0 = Some code"
    by (cases "generateRoomCode st random 0") (auto simp: createRoom_def)
  from generateRoomCode_Some_D[OF g] obtain k where
    k: "code = drawCode random (0 + k * code_length) code_length" "findRoomByCode st code = None"
    by blast
  from drawCode_in_range[OF rnd] k(1)
  have wf: "length code = 6" "set code \<subseteq> set characters" by (simp_all add: code_length_def)
  let ?room = "\<lparr>room_id = nextId st, room_name = the name,
                 description = (case desc of None \<Rightarrow> '''' | Some d \<Rightarrow> d),
                 roomCode = code, owner = uid,
                 maxMembers = (case maxM of None \<Rightarrow> 50 | Some k \<Rightarrow> if k = 0 then 50 else k),
                 isPrivate = False\<rparr>"
  let ?member = "\<lparr>member_id = nextId st + 1, member_room = nextId st, member_user = uid,
                   role = Owner, status = Online, joinedAt = now\<rparr>"
  from c False g k(2) have "st' = st\<lparr>rooms := rooms st @ [?room],
      roomMembers := roomMembers st @ [?member], nextId := nextId st + 2\<rparr>"
    by (auto simp: createRoom_def Let_def)
  moreover have "db_inv (st\<lparr>rooms := rooms st @ [?room],
      roomMembers := roomMembers st @ [?member], nextId := nextId st + 2\<rparr>)"
    by (rule inv_add_room[OF inv]) (simp_all add: k(2) wf)
  ultimately show ?thesis by simp
qed

lemma inv_joinFound:
  assumes inv: "db_inv st" and room: "room \<in> set (rooms st)"
    and j: "joinFound st room uid now = (res, st')"
  shows "db_inv st'"
proof (cases "maxMembers room \<le> of_nat (countMembers st (room_id room))")
  case True
  with j have "st' = st" by (simp add: joinFound_def)
  with inv show ?thesis by simp
next
  case False
  show ?thesis
  proof (cases "findMembership st (room_id room) uid")
    case None
    let ?m = "\<lparr>member_id = nextId st, member_room = room_id room, member_user = uid,
               role = Member, status = Online, joinedAt = now\<rparr>"
    from j False None have "st' = st\<lparr>roomMembers := roomMembers st @ [?m], nextId := nextId st + 1\<rparr>"
      by (auto simp: joinFound_def Let_def)
    moreover have "db_inv (st\<lparr>roomMembers := roomMembers st @ [?m], nextId := nextId st + 1\<rparr>)"
      by (rule inv_add_member[OF inv room False None]) simp_all
    ultimately show ?thesis by simp
  next
    case (Some membership)
    from j False Some have "st' = st\<lparr>roomMembers :=
        map (\<lambda>m. if member_id m = member_id membership then m\<lparr>status := Online\<rparr> else m)
          (roomMembers st)\<rparr>"
      by (auto simp: joinFound_def Let_def)
    moreover have "db_inv (st\<lparr>roomMembers :=
        map (\<lambda>m. if member_id m = member_id membership then m\<lparr>status := Online\<rparr> else m)
          (roomMembers st)\<rparr>)"
      by (rule inv_map_members[OF inv]) simp
    ultimately show ?thesis by simp
  qed
qed

lemma inv_joinById:
  assumes "db_inv st" and "joinById st roomId uid now = (res, st')"
  shows "db_inv st'"
proof (cases "findRoomById st roomId")
  case None
  with assms show ?thesis by (simp add: joinById_def)
next
  case (Some room)
  with assms(2) have "joinFound st room uid now = (res, st')" by (simp add: joinById_def)
  with assms(1) findRoomById_Some[OF Some] show ?thesis by (blast intro: inv_joinFound)
qed

lemma inv_joinByCode:
  assumes "db_inv st" and "joinByCode st code uid now = (res, st')"
  shows "db_inv st'"
proof (cases "findByCode st code")
  case (Inl e)
  with assms show ?thesis by (simp add: joinByCode_def)
next
  case (Inr room)
  then have "room \<in> set (rooms st)"
    by (auto simp: findByCode_def split: option.splits if_splits dest: findRoomByCodePoints_Some_D)
  moreover from Inr assms(2) have "joinFound st room uid now = (res, st')"
    by (simp add: joinByCode_def)
  ultimately show ?thesis using assms(1) by (blast intro: inv_joinFound)
qed

lemma inv_renameRoom:
  assumes "db_inv st" and "renameRoom st roomId uid name = (res, st')"
  shows "db_inv st'"
proof -
  from assms(2) have "st' = st \<or> (\<exists>i n. st' = st\<lparr>rooms := map (\<lambda>r. if room_id r = i
                                      then r\<lparr>room_name := n\<rparr> else r) (rooms st)\<rparr>)"
    by (auto simp: renameRoom_def split: if_splits option.splits)
  moreover have "db_inv (st\<lparr>rooms := map (\<lambda>r. if room_id r = i
                                      then r\<lparr>room_name := n\<rparr> else r) (rooms st)\<rparr>)" for i n
    by (rule inv_map_rooms[OF assms(1)]) simp
  ultimately show ?thesis using assms(1) by auto
qed

lemma inv_sendMessage:
  assumes "db_inv st" and "sendMessage st roomId uid body now = (res, st')"
  shows "db_inv st'"
proof -
  from assms(2) have "st' = st \<or> (\<exists>ms. st' = st\<lparr>messages := ms, nextId := nextId st + 1\<rparr>)"
    by (auto simp: sendMessage_def Let_def split: if_splits option.splits)
  with assms(1) inv_add_message[OF assms(1)] show ?thesis by auto
qed

text \<open>The three ways a leave request changes the database.\<close>

lemma leaveRoom_last:
  assumes "findRoomById st roomId = Some room"
    and "findMembership st roomId uid = Some membership"
    and "length (membersOf st roomId) = 1"
  shows "leaveRoom st roomId uid tie =
      (Inr RoomDeleted,
       st\<lparr>messages := filter (\<lambda>x. message_room x \<noteq> roomId) (messages st),
          roomMembers := filter (\<lambda>m. member_room m \<noteq> roomId) (roomMembers st),
          rooms := filter (\<lambda>r. room_id r \<noteq> roomId) (rooms st)\<rparr>)"
  using assms by (simp add: leaveRoom_def sortByJoinedAt_length)

lemma leaveRoom_member:
  assumes "findRoomById st roomId = Some room"
    and "findMembership st roomId uid = Some membership"
    and "length (membersOf st roomId) \<noteq> 1"
    and "owner room \<noteq> uid"
  shows "leaveRoom st roomId uid tie =
      (Inr (RoomKept (room_id room) (owner room)),
       st\<lparr>roomMembers := filter (\<lambda>m. member_id m \<noteq> member_id membership) (roomMembers st)\<rparr>)"
  using assms by (simp add: leaveRoom_def sortByJoinedAt_length)

lemma leaveRoom_owner:
  assumes "findRoomById st roomId = Some room"
    and "findMembership st roomId uid = Some membership"
    and "length (membersOf st roomId) \<noteq> 1"
    and "owner room = uid"
    and "find (\<lambda>m. member_user m \<noteq> uid) (sortByJoinedAt tie (membersOf st roomId)) = Some new"
  shows "leaveRoom st roomId uid tie =
      (Inr (RoomKept (room_id room) (member_user new)),
       st\<lparr>rooms := map (\<lambda>x. if room_id x = room_id room
                             then x\<lparr>owner := member_user new\<rparr> else x) (rooms st),
          roomMembers := filter (\<lambda>m. member_id m \<noteq> member_id membership)
            (map (\<lambda>m. if member_id m = member_id new then m\<lparr>role := Owner\<rparr> else m)
               (roomMembers st))\<rparr>)"
  using assms by (simp add: leaveRoom_def transferOwnership_def sortByJoinedAt_length)

lemma inv_distinct_members: "db_inv st \<Longrightarrow> distinct (roomMembers st)"
  by (simp add: db_inv_def ids_ok_def distinct_map)

text \<open>In a room with a second member, the search for a successor finds one.\<close>

lemma successor_exists:
  assumes inv: "db_inv st"
    and m: "findMembership st roomId uid = Some membership"
    and n: "length (membersOf st roomId) \<noteq> 1"
  shows "\<exists>new. find (\<lambda>m. member_user m \<noteq> uid) (sortByJoinedAt tie (membersOf st roomId)) = Some new
      \<and> new \<in> set (roomMembers st) \<and> member_room new = roomId \<and> member_user new \<noteq> uid"
proof -
  note mm = findMembership_Some[OF m]
  have d: "distinct (membersOf st roomId)"
    using inv_distinct_members[OF inv] by (simp add: membersOf_def)
  from mm have "membership \<in> set (membersOf st roomId)" by (simp add: membersOf_def)
  from distinct_other[OF d this n] obtain y where
    y: "y \<in> set (roomMembers st)" "member_room y = roomId" "y \<noteq> membership"
    by (auto simp: membersOf_def)
  with inv_unique(2)[OF inv y(1), of membership] mm have "member_user y \<noteq> uid" by auto
  with y have "\<exists>k. k \<in> set (sortByJoinedAt tie (membersOf st roomId)) \<and> member_user k \<noteq> uid"
    by (intro exI[of _ y]) (simp add: membersOf_def sortByJoinedAt_set)
  then have "find (\<lambda>m. member_user m \<noteq> uid) (sortByJoinedAt tie (membersOf st roomId)) \<noteq> None"
    by (simp only: find_None_iff not_not)
  then obtain new where
    f: "find (\<lambda>m. member_user m \<noteq> uid) (sortByJoinedAt tie (membersOf st roomId)) = Some new"
    by blast
  from find_SomeD[OF this]
  have "new \<in> set (sortByJoinedAt tie (membersOf st roomId))" "member_user new \<noteq> uid"
    by simp_all
  then have "new \<in> set (roomMembers st)" "member_room new = roomId"
    by (simp_all add: membersOf_def sortByJoinedAt_set)
  with f \<open>member_user new \<noteq> uid\<close> show ?thesis by simp
qed

lemma inv_leaveRoom:
  assumes inv: "db_inv st" and l: "leaveRoom st roomId uid tie = (res, st')"
  shows "db_inv st'"
proof (cases "findRoomById st roomId")
  case None
  with l inv show ?thesis by (simp add: leaveRoom_def)
next
  case (Some room)
  note r = findRoomById_Some[OF Some]
  show ?thesis
  proof (cases "findMembership st roomId uid")
    case None
    with l inv Some show ?thesis by (simp add: leaveRoom_def)
  next
    case m: (Some membership)
    note mm = findMembership_Some[OF m]
    show ?thesis
    proof (cases "length (membersOf st roomId) = 1")
      case True
      from leaveRoom_last[OF Some m True] l
      have "st' = st\<lparr>messages := filter (\<lambda>x. message_room x \<noteq> roomId) (messages st),
          roomMembers := filter (\<lambda>m. member_room m \<noteq> roomId) (roomMembers st),
          rooms := filter (\<lambda>r. room_id r \<noteq> roomId) (rooms st)\<rparr>" by simp
      then show ?thesis by (simp only: inv_delete_room[OF inv])
    next
      case False
      show ?thesis
      proof (cases "owner room = uid")
        case True
        from successor_exists[OF inv m False] obtain new where
          new: "find (\<lambda>m. member_user m \<noteq> uid) (sortByJoinedAt tie (membersOf st roomId)) = Some new"
            "new \<in> set (roomMembers st)" "member_room new = roomId" "member_user new \<noteq> uid"
          by blast
        have "db_inv (st\<lparr>rooms := map (\<lambda>x. if room_id x = room_id room
                             then x\<lparr>owner := member_user new\<rparr> else x) (rooms st),
          roomMembers := filter (\<lambda>m. member_id m \<noteq> member_id membership)
            (map (\<lambda>m. if member_id m = member_id new then m\<lparr>role := Owner\<rparr> else m)
               (roomMembers st))\<rparr>)"
        proof (rule inv_transfer_delete[OF inv, of room membership new])
          show "room \<in> set (rooms st)" using r by simp
          show "membership \<in> set (roomMembers st)" using mm by simp
          show "member_room membership = room_id room" using mm r by simp
          show "member_user membership = owner room" using mm True by simp
          show "new \<in> set (roomMembers st)" by (rule new(2))
          show "member_room new = room_id room" using new(3) r by simp
          show "member_user new \<noteq> owner room" using new(4) True by simp
        qed
        moreover from leaveRoom_owner[OF Some m False True new(1)] l
        have "st' = st\<lparr>rooms := map (\<lambda>x. if room_id x = room_id room
                             then x\<lparr>owner := member_user new\<rparr> else x) (rooms st),
          roomMembers := filter (\<lambda>m. member_id m \<noteq> member_id membership)
            (map (\<lambda>m. if member_id m = member_id new then m\<lparr>role := Owner\<rparr> else m)
               (roomMembers st))\<rparr>" by (simp only: prod.inject)
        ultimately show ?thesis by (simp only:)
      next
        case False': False
        have "db_inv (st\<lparr>roomMembers :=
            filter (\<lambda>m. member_id m \<noteq> member_id membership) (roomMembers st)\<rparr>)"
        proof (rule inv_delete_member[OF inv, of room membership])
          show "room \<in> set (rooms st)" using r by simp
          show "membership \<in> set (roomMembers st)" using mm by simp
          show "member_room membership = room_id room" using mm r by simp
          show "member_user membership \<noteq> owner room" using mm False' by auto
        qed
        moreover from leaveRoom_member[OF Some m False False'] l
        have "st' = st\<lparr>roomMembers :=
            filter (\<lambda>m. member_id m \<noteq> member_id membership) (roomMembers st)\<rparr>"
          by (simp only: prod.inject)
        ultimately show ?thesis by (simp only:)
      qed
    qed
  qed
qed

lemma reachable_inv: "reachable st \<Longrightarrow> db_inv st"
proof (induction rule: reachable.induct)
  case reach_empty
  show ?case by (rule inv_emptyDb)
next
  case (reach_create st random name desc maxM uid now res st')
  then show ?case by (blast intro: inv_createRoom)
next
  case (reach_joinByCode st code uid now jres st')
  then show ?case by (blast intro: inv_joinByCode)
next
  case (reach_joinById st roomId uid now jres st')
  then show ?case by (blast intro: inv_joinById)
next
  case (reach_leave st roomId uid tie lres st')
  then show ?case by (blast intro: inv_leaveRoom)
next
  case (reach_rename st roomId uid name res st')
  then show ?case by (blast intro: inv_renameRoom)
next
  case (reach_send st roomId uid body now mres st')
  then show ?case by (blast intro: inv_sendMessage)
qed

text \<open>
  In a reachable state the memberships of a room are distinct documents, so the model gives
  every order of them that is ascending in \<open>joinedAt\<close>, and only such orders.
\<close>

lemma reachable_any_order:
  assumes "reachable st" and "mset ys = mset (membersOf st roomId)"
    and "sorted (map joinedAt ys)"
  shows "\<exists>tie. sortByJoinedAt tie (membersOf st roomId) = ys"
proof -
  have "distinct (membersOf st roomId)"
    using inv_distinct_members[OF reachable_inv[OF assms(1)]] by (simp add: membersOf_def)
  from sortByJoinedAt_any_order[OF this assms(2) assms(3)] show ?thesis .
qed

section \<open>The single owner\<close>

text \<open>
  Claim C1. In every state reached from the empty database by create, join-by-code,
  join-by-id, leave, rename and send-message requests, every room has exactly one
  membership with role owner, and the user of that membership is the owner of the room.
\<close>

theorem single_owner_invariant:
  assumes "reachable st" and "r \<in> set (rooms st)"
  shows "\<exists>m. filter (\<lambda>m. member_room m = room_id r \<and> role m = Owner) (roomMembers st) = [m]
           \<and> member_user m = owner r"
proof -
  from assms(1) have inv: "db_inv st" by (rule reachable_inv)
  then have ow: "owner_ok st" by (simp add: db_inv_def)
  with assms(2) obtain mo where mo: "mo \<in> set (roomMembers st)" "member_room mo = room_id r"
    "member_user mo = owner r" by (auto simp: owner_ok_def)
  have "(member_room y = room_id r \<and> role y = Owner) = (y = mo)"
    if y: "y \<in> set (roomMembers st)" for y
  proof (cases "member_room y = room_id r")
    case True
    with ow assms(2) y have "(role y = Owner) = (member_user y = owner r)"
      by (auto simp: owner_ok_def)
    also have "\<dots> = (y = mo)"
      using inv_unique(2)[OF inv y mo(1)] True mo by auto
    finally show ?thesis using True by simp
  next
    case False
    with mo show ?thesis by auto
  qed
  with inv_distinct_members[OF inv] mo(1)
  have "filter (\<lambda>m. member_room m = room_id r \<and> role m = Owner) (roomMembers st) = [mo]"
    by (intro filter_single) simp_all
  with mo(3) show ?thesis by simp
qed

theorem single_owner_invariant_witness:
  "reachable dbTransferred
   \<and> (\<exists>m. filter (\<lambda>m. member_room m = 0 \<and> role m = Owner) (roomMembers dbTransferred) = [m]
          \<and> member_user m = 2)"
proof -
  have "testRoom\<lparr>owner := 2\<rparr> \<in> set (rooms dbTransferred)" by (simp add: dbTransferred_def)
  from single_owner_invariant[OF reachable_dbTransferred this] reachable_dbTransferred
  show ?thesis by (simp add: testRoom_def)
qed

section \<open>Ownership transfer\<close>

text \<open>
  Claim C3, as the code has it. In a reachable state, when the owner of a room with at
  least two memberships leaves, the new owner is a member who stays and whose
  \<open>joinedAt\<close> is the least among those who stay. The code names no second key: among
  members of equal least \<open>joinedAt\<close> the one promoted is the one the store's sort puts
  first in that request. When one member who stays has a \<open>joinedAt\<close> strictly below
  all the others, that member is the new owner whatever the store does. The answer names
  the new owner, the room's owner field is set to that user, that member's membership
  gets role owner, the membership of the leaving owner is gone, and the other memberships
  of the room are as they were.
\<close>

theorem ownership_transfer:
  assumes reach: "reachable st"
    and room: "findRoomById st roomId = Some room"
    and two: "2 \<le> countMembers st roomId"
  shows "\<exists>new i.
      i < length (othersOf st roomId (owner room))
      \<and> othersOf st roomId (owner room) ! i = new
      \<and> (\<forall>j<length (othersOf st roomId (owner room)).
            joinedAt new \<le> joinedAt (othersOf st roomId (owner room) ! j))
      \<and> (\<forall>j<length (othersOf st roomId (owner room)).
            joinedAt (othersOf st roomId (owner room) ! j) = joinedAt new \<longrightarrow>
            tie new \<le> tie (othersOf st roomId (owner room) ! j))
      \<and> (\<forall>x\<in>set (othersOf st roomId (owner room)).
            (\<forall>m\<in>set (othersOf st roomId (owner room)). m \<noteq> x \<longrightarrow> joinedAt x < joinedAt m)
            \<longrightarrow> new = x)
      \<and> fst (leaveRoom st roomId (owner room) tie) = Inr (RoomKept roomId (member_user new))
      \<and> findRoomById (snd (leaveRoom st roomId (owner room) tie)) roomId =
          Some (room\<lparr>owner := member_user new\<rparr>)
      \<and> findMembership (snd (leaveRoom st roomId (owner room) tie)) roomId (member_user new) =
          Some (new\<lparr>role := Owner\<rparr>)
      \<and> findMembership (snd (leaveRoom st roomId (owner room) tie)) roomId (owner room) = None
      \<and> membersOf (snd (leaveRoom st roomId (owner room) tie)) roomId =
          map (\<lambda>m. if member_id m = member_id new then m\<lparr>role := Owner\<rparr> else m)
            (othersOf st roomId (owner room))"
proof -
  let ?uid = "owner room"
  let ?others = "othersOf st roomId ?uid"
  from reach have inv: "db_inv st" by (rule reachable_inv)
  note u = inv_unique[OF inv]
  note r = findRoomById_Some[OF room]
  from inv r have "\<exists>m\<in>set (roomMembers st). member_room m = roomId \<and> member_user m = ?uid"
    by (auto simp: db_inv_def owner_ok_def)
  then have "findMembership st roomId ?uid \<noteq> None" by (simp add: findMembership_None)
  then obtain membership where m: "findMembership st roomId ?uid = Some membership" by blast
  note mm = findMembership_Some[OF m]
  from two have n: "length (membersOf st roomId) \<noteq> 1" by (simp add: countMembers_def)
  from successor_exists[OF inv m n] obtain new where
    f: "find (\<lambda>m. member_user m \<noteq> ?uid) (sortByJoinedAt tie (membersOf st roomId)) = Some new"
    and new: "new \<in> set (roomMembers st)" "member_room new = roomId" "member_user new \<noteq> ?uid"
    by blast
  define fm :: "roomMember \<Rightarrow> roomMember" where "fm = (\<lambda>m. if member_id m = member_id new then m\<lparr>role := Owner\<rparr> else m)"
  have fm: "\<And>m. member_id (fm m) = member_id m \<and> member_room (fm m) = member_room m
      \<and> member_user (fm m) = member_user m" by (simp add: fm_def)
  have fm_new: "fm new = new\<lparr>role := Owner\<rparr>" by (simp add: fm_def)
  define st' where "st' = st\<lparr>rooms := map (\<lambda>x. if room_id x = room_id room
                             then x\<lparr>owner := member_user new\<rparr> else x) (rooms st),
          roomMembers := filter (\<lambda>m. member_id m \<noteq> member_id membership)
            (map fm (roomMembers st))\<rparr>"
  have L: "leaveRoom st roomId ?uid tie = (Inr (RoomKept roomId (member_user new)), st')"
    using leaveRoom_owner[OF room m n refl f] r by (simp add: st'_def fm_def)
  have inv': "db_inv st'" by (rule inv_leaveRoom[OF inv L])
  have ms': "roomMembers st' = filter (\<lambda>m. member_id m \<noteq> member_id membership) (map fm (roomMembers st))"
    by (simp add: st'_def)
  have set': "set (roomMembers st') = fm ` {m \<in> set (roomMembers st). member_id m \<noteq> member_id membership}"
    unfolding ms' by (auto simp: fm)
  \<comment> \<open>the choice of the successor\<close>
  let ?key = "\<lambda>m. (joinedAt m, tie m)"
  have fs: "filter (\<lambda>m. member_user m \<noteq> ?uid) (sortByJoinedAt tie (membersOf st roomId))
      = sort_key ?key ?others"
    by (simp add: othersOf_def sortByJoinedAt_def filter_sort)
  from find_hd_filter[OF f] have ne: "sort_key ?key ?others \<noteq> []"
    and hd: "new = hd (sort_key ?key ?others)" by (simp_all add: fs)
  from ne have "?others \<noteq> []" by (simp add: sort_key_Nil_iff)
  from hd_sort_key_first_min[OF this, of ?key] obtain i where
    i: "i < length ?others" "hd (sort_key ?key ?others) = ?others ! i"
      "\<forall>j<length ?others. ?key (?others ! i) \<le> ?key (?others ! j)" by blast
  from i(1,2) hd have at: "?others ! i = new" by simp
  with i(1) have mem: "new \<in> set ?others" by (auto simp: in_set_conv_nth)
  have le: "\<forall>j<length ?others. joinedAt new \<le> joinedAt (?others ! j)"
    using i(3) at by auto
  have tl: "\<forall>j<length ?others. joinedAt (?others ! j) = joinedAt new \<longrightarrow> tie new \<le> tie (?others ! j)"
    using i(3) at by auto
  have un: "\<forall>x\<in>set ?others.
      (\<forall>m\<in>set ?others. m \<noteq> x \<longrightarrow> joinedAt x < joinedAt m) \<longrightarrow> new = x"
  proof (intro ballI impI)
    fix x assume x: "x \<in> set ?others"
      and least: "\<forall>m\<in>set ?others. m \<noteq> x \<longrightarrow> joinedAt x < joinedAt m"
    from x obtain j where j: "j < length ?others" "?others ! j = x" by (auto simp: in_set_conv_nth)
    with le have "joinedAt new \<le> joinedAt x" by auto
    with least mem show "new = x" by (cases "new = x") auto
  qed
  from i(1) at le tl un have c1: "i < length ?others \<and> ?others ! i = new
      \<and> (\<forall>j<length ?others. joinedAt new \<le> joinedAt (?others ! j))
      \<and> (\<forall>j<length ?others. joinedAt (?others ! j) = joinedAt new \<longrightarrow> tie new \<le> tie (?others ! j))
      \<and> (\<forall>x\<in>set ?others.
            (\<forall>m\<in>set ?others. m \<noteq> x \<longrightarrow> joinedAt x < joinedAt m) \<longrightarrow> new = x)" by blast
  \<comment> \<open>the room\<close>
  have c2: "findRoomById st' roomId = Some (room\<lparr>owner := member_user new\<rparr>)"
  proof -
    have "find (\<lambda>r. room_id r = roomId)
        (map (\<lambda>x. if room_id x = roomId then x\<lparr>owner := member_user new\<rparr> else x) (rooms st))
        = map_option (\<lambda>x. x\<lparr>owner := member_user new\<rparr>) (find (\<lambda>r. room_id r = roomId) (rooms st))"
      by (rule find_map_room) simp
    with room r show ?thesis by (simp add: findRoomById_def st'_def)
  qed
  \<comment> \<open>the memberships\<close>
  have idne: "member_id new \<noteq> member_id membership"
    using u(1)[OF new(1)] mm new(3) by auto
  have c3: "findMembership st' roomId (member_user new) = Some (new\<lparr>role := Owner\<rparr>)"
    unfolding findMembership_def
  proof (rule find_unique)
    have "fm new \<in> set (roomMembers st')" unfolding set' using new(1) idne by blast
    then show "new\<lparr>role := Owner\<rparr> \<in> set (roomMembers st')" by (simp add: fm_new)
    show "member_room (new\<lparr>role := Owner\<rparr>) = roomId
        \<and> member_user (new\<lparr>role := Owner\<rparr>) = member_user new" using new(2) by simp
    fix y assume "y \<in> set (roomMembers st')"
      "member_room y = roomId \<and> member_user y = member_user new"
    with inv_unique(2)[OF inv', of y "new\<lparr>role := Owner\<rparr>"]
      \<open>new\<lparr>role := Owner\<rparr> \<in> set (roomMembers st')\<close> new(2)
    show "y = new\<lparr>role := Owner\<rparr>" by simp
  qed
  have same: "(member_id k \<noteq> member_id membership) = (member_user k \<noteq> ?uid)"
    if k: "k \<in> set (roomMembers st)" "member_room k = roomId" for k
    using u(1)[OF k(1), of membership] u(2)[OF k(1), of membership] mm k(2) by auto
  have c4: "findMembership st' roomId ?uid = None"
    unfolding findMembership_None
  proof
    assume "\<exists>k\<in>set (roomMembers st'). member_room k = roomId \<and> member_user k = ?uid"
    then obtain k0 where k0: "k0 \<in> set (roomMembers st)" "member_id k0 \<noteq> member_id membership"
      "member_room (fm k0) = roomId" "member_user (fm k0) = ?uid"
      unfolding set' by blast
    with same[OF k0(1)] show False by (simp add: fm)
  qed
  have c5: "membersOf st' roomId = map fm ?others"
  proof -
    have "membersOf st' roomId =
        map fm (filter (\<lambda>m. member_id m \<noteq> member_id membership \<and> member_room m = roomId) (roomMembers st))"
      by (simp add: membersOf_def ms' filter_map o_def fm)
    also have "filter (\<lambda>m. member_id m \<noteq> member_id membership \<and> member_room m = roomId) (roomMembers st)
        = filter (\<lambda>m. member_room m = roomId \<and> member_user m \<noteq> ?uid) (roomMembers st)"
      by (rule filter_cong[OF refl]) (use same in blast)
    also have "\<dots> = ?others" by (simp add: othersOf_def membersOf_def conj_commute)
    finally show ?thesis .
  qed
  from c1 c2 c3 c4 c5 show ?thesis
    unfolding L fst_conv snd_conv fm_def by blast
qed

theorem ownership_transfer_witness:
  "findRoomById dbThree 0 = Some testRoom
   \<and> 2 \<le> countMembers dbThree 0
   \<and> othersOf dbThree 0 (owner testRoom) = [member2, member3]
   \<and> leaveRoom dbThree 0 (owner testRoom) userDescending = (Inr (RoomKept 0 2), dbTransferred)
   \<and> (\<exists>new i.
      i < length (othersOf dbThree 0 (owner testRoom))
      \<and> othersOf dbThree 0 (owner testRoom) ! i = new
      \<and> member_user new = 2
      \<and> findRoomById (snd (leaveRoom dbThree 0 (owner testRoom) userDescending)) 0 =
          Some (testRoom\<lparr>owner := member_user new\<rparr>)
      \<and> findMembership (snd (leaveRoom dbThree 0 (owner testRoom) userDescending)) 0
            (member_user new) = Some (new\<lparr>role := Owner\<rparr>)
      \<and> findMembership (snd (leaveRoom dbThree 0 (owner testRoom) userDescending)) 0
            (owner testRoom) = None
      \<and> membersOf (snd (leaveRoom dbThree 0 (owner testRoom) userDescending)) 0 =
          map (\<lambda>m. if member_id m = member_id new then m\<lparr>role := Owner\<rparr> else m)
            (othersOf dbThree 0 (owner testRoom)))"
proof -
  have r: "findRoomById dbThree 0 = Some testRoom"
    by (simp add: findRoomById_def dbThree_def testRoom_def)
  have t: "2 \<le> countMembers dbThree 0"
    by (simp add: countMembers_def membersOf_def dbThree_def member1_def member2_def member3_def)
  have o: "othersOf dbThree 0 (owner testRoom) = [member2, member3]"
    by (simp add: othersOf_def membersOf_def dbThree_def testRoom_def member1_def member2_def
        member3_def)
  have l: "leaveRoom dbThree 0 (owner testRoom) userDescending = (Inr (RoomKept 0 2), dbTransferred)"
    using leave_example[of userDescending] by (simp add: testRoom_def)
  from ownership_transfer[OF reachable_dbThree r t, of userDescending] obtain new i where
    n: "i < length (othersOf dbThree 0 (owner testRoom))"
      "othersOf dbThree 0 (owner testRoom) ! i = new"
      "fst (leaveRoom dbThree 0 (owner testRoom) userDescending) = Inr (RoomKept 0 (member_user new))"
      "findRoomById (snd (leaveRoom dbThree 0 (owner testRoom) userDescending)) 0 =
          Some (testRoom\<lparr>owner := member_user new\<rparr>)"
      "findMembership (snd (leaveRoom dbThree 0 (owner testRoom) userDescending)) 0
            (member_user new) = Some (new\<lparr>role := Owner\<rparr>)"
      "findMembership (snd (leaveRoom dbThree 0 (owner testRoom) userDescending)) 0
            (owner testRoom) = None"
      "membersOf (snd (leaveRoom dbThree 0 (owner testRoom) userDescending)) 0 =
          map (\<lambda>m. if member_id m = member_id new then m\<lparr>role := Owner\<rparr> else m)
            (othersOf dbThree 0 (owner testRoom))"
    by blast
  from n(3) l have "member_user new = 2" by simp
  with n r t o l show ?thesis by blast
qed

text \<open>
  Claim C3 as stated fails: it has the successor fixed by \<open>joinedAt\<close> and a stable second
  key. Users 2 and 3 joined at the same time 200, and the owner, user 1, leaves. When the
  store gives the two in ascending order of user id, user 2 is the new owner; when it
  gives them in descending order, which is as much an ascending order of \<open>joinedAt\<close>,
  user 3 is.
\<close>

theorem ownership_transfer_tie_undetermined:
  "reachable dbTie
   \<and> joinedAt member2 = joinedAt member3t
   \<and> sortByJoinedAt userAscending (membersOf dbTie 0) = [member1, member2, member3t]
   \<and> sortByJoinedAt userDescending (membersOf dbTie 0) = [member1, member3t, member2]
   \<and> fst (leaveRoom dbTie 0 1 userAscending) = Inr (RoomKept 0 2)
   \<and> fst (leaveRoom dbTie 0 1 userDescending) = Inr (RoomKept 0 3)"
proof -
  have "joinedAt member2 = joinedAt member3t"
    by (simp add: member2_def member3_def member3t_def)
  moreover have "fst (leaveRoom dbTie 0 1 userAscending) = Inr (RoomKept 0 2)"
    unfolding leaveRoom_def findRoomById_dbTie findMembership_dbTie1 sort_dbTie_ascending
    by (simp add: transferOwnership_def Let_def testRoom_def member1_def member2_def member3_def
        member3t_def)
  moreover have "fst (leaveRoom dbTie 0 1 userDescending) = Inr (RoomKept 0 3)"
    unfolding leaveRoom_def findRoomById_dbTie findMembership_dbTie1 sort_dbTie_descending
    by (simp add: transferOwnership_def Let_def testRoom_def member1_def member2_def member3_def
        member3t_def)
  ultimately show ?thesis
    using reachable_dbTie sort_dbTie_ascending sort_dbTie_descending by simp
qed

section \<open>Joining\<close>

lemma joinFound_full:
  "maxMembers room \<le> of_nat (countMembers st (room_id room)) \<Longrightarrow>
     joinFound st room uid now = (Inl (Failure 400 ''Room is full''), st)"
  by (simp add: joinFound_def)

lemma joinFound_again:
  "of_nat (countMembers st (room_id room)) < maxMembers room \<Longrightarrow>
   findMembership st (room_id room) uid = Some membership \<Longrightarrow>
     joinFound st room uid now =
       (Inr (room, membership\<lparr>status := Online\<rparr>),
        st\<lparr>roomMembers := map (\<lambda>m. if member_id m = member_id membership
                                    then m\<lparr>status := Online\<rparr> else m) (roomMembers st)\<rparr>)"
  by (simp add: joinFound_def)

lemma joinFound_new:
  "of_nat (countMembers st (room_id room)) < maxMembers room \<Longrightarrow>
   findMembership st (room_id room) uid = None \<Longrightarrow>
     joinFound st room uid now =
       (Inr (room, \<lparr>member_id = nextId st, member_room = room_id room, member_user = uid,
                    role = Member, status = Online, joinedAt = now\<rparr>),
        st\<lparr>roomMembers := roomMembers st @
              [\<lparr>member_id = nextId st, member_room = room_id room, member_user = uid,
                role = Member, status = Online, joinedAt = now\<rparr>],
           nextId := nextId st + 1\<rparr>)"
  by (simp add: joinFound_def Let_def)

lemma joinFound_count:
  "countMembers (snd (joinFound st room uid now)) (room_id room)
     \<le> countMembers st (room_id room) + 1"
proof (cases "maxMembers room \<le> of_nat (countMembers st (room_id room))")
  case True
  then show ?thesis by (simp add: joinFound_full)
next
  case False
  then have lt: "of_nat (countMembers st (room_id room)) < maxMembers room" by simp
  show ?thesis
  proof (cases "findMembership st (room_id room) uid")
    case None
    show ?thesis by (simp add: joinFound_new[OF lt None] countMembers_append)
  next
    case (Some membership)
    have "countMembers (st\<lparr>roomMembers := map (\<lambda>m. if member_id m = member_id membership
                                    then m\<lparr>status := Online\<rparr> else m) (roomMembers st)\<rparr>) (room_id room)
        = countMembers st (room_id room)"
      by (simp add: countMembers_def membersOf_def filter_map o_def if_distrib cong: if_cong)
    then show ?thesis by (simp add: joinFound_again[OF lt Some])
  qed
qed

lemma joinFound_capacity:
  "(fst (joinFound st room uid now) = Inl (Failure 400 ''Room is full''))
      = (maxMembers room \<le> of_nat (countMembers st (room_id room)))
   \<and> (maxMembers room \<le> of_nat (countMembers st (room_id room)) \<longrightarrow>
        snd (joinFound st room uid now) = st)
   \<and> (of_nat (countMembers st (room_id room)) < maxMembers room \<longrightarrow>
        of_nat (countMembers (snd (joinFound st room uid now)) (room_id room))
          < maxMembers room + 1)
   \<and> (maxMembers room \<in> \<int> \<and> of_nat (countMembers st (room_id room)) < maxMembers room \<longrightarrow>
        of_nat (countMembers (snd (joinFound st room uid now)) (room_id room))
          \<le> maxMembers room)"
proof -
  let ?n = "countMembers st (room_id room)"
  let ?n' = "countMembers (snd (joinFound st room uid now)) (room_id room)"
  have le: "(of_nat ?n' :: rat) \<le> of_nat (?n + 1)"
    using joinFound_count[of st room uid now] by (simp only: of_nat_le_iff)
  have a: "(fst (joinFound st room uid now) = Inl (Failure 400 ''Room is full''))
      = (maxMembers room \<le> of_nat ?n)"
  proof (cases "maxMembers room \<le> of_nat ?n")
    case True
    then show ?thesis by (simp add: joinFound_full)
  next
    case False
    then have lt: "of_nat ?n < maxMembers room" by simp
    show ?thesis
    proof (cases "findMembership st (room_id room) uid")
      case None
      from False show ?thesis by (simp add: joinFound_new[OF lt None])
    next
      case (Some membership)
      from False show ?thesis by (simp add: joinFound_again[OF lt Some])
    qed
  qed
  have b: "maxMembers room \<le> of_nat ?n \<longrightarrow> snd (joinFound st room uid now) = st"
    by (simp add: joinFound_full)
  have c: "of_nat ?n < maxMembers room \<longrightarrow> of_nat ?n' < maxMembers room + 1"
    using le by simp
  have d: "maxMembers room \<in> \<int> \<and> of_nat ?n < maxMembers room \<longrightarrow> of_nat ?n' \<le> maxMembers room"
  proof
    assume h: "maxMembers room \<in> \<int> \<and> of_nat ?n < maxMembers room"
    then have "\<not> maxMembers room \<le> of_nat ?n" by simp
    with h below_whole_limit[of "maxMembers room" ?n] have "of_nat (?n + 1) \<le> maxMembers room"
      by blast
    with le show "of_nat ?n' \<le> maxMembers room" by (rule order_trans)
  qed
  from a b c d show ?thesis by blast
qed

lemma inv_findRoomById:
  assumes "db_inv st" and "room \<in> set (rooms st)"
  shows "findRoomById st (room_id room) = Some room"
  unfolding findRoomById_def
proof (rule find_unique)
  show "room \<in> set (rooms st)" by (rule assms(2))
  show "room_id room = room_id room" ..
  fix y assume "y \<in> set (rooms st)" "room_id y = room_id room"
  then show "y = room" using inv_unique(3)[OF assms(1) _ assms(2)] by blast
qed

lemma joinById_found:
  "findRoomById st roomId = Some room \<Longrightarrow> joinById st roomId uid now = joinFound st room uid now"
  by (simp add: joinById_def)

lemma joinByCode_found:
  "findByCode st code = Inr room \<Longrightarrow> joinByCode st code uid now = joinFound st room uid now"
  by (simp add: joinByCode_def)

text \<open>
  Claim C4, as the code has it. In a reachable state, join-by-id and join-by-code are
  answered 400 "Room is full" exactly when the number of memberships of the room is at
  least \<open>maxMembers\<close>. A refused join leaves the database as it was; an accepted one
  adds at most one membership, so the number of memberships stays below \<open>maxMembers\<close>
  + 1. In a room whose \<open>maxMembers\<close> is a whole number of at least 1 the number of
  memberships is never above \<open>maxMembers\<close>, before the join or after it, and the join is
  refused exactly when the two are equal.
\<close>

theorem join_capacity:
  assumes "reachable st" and "room \<in> set (rooms st)"
    and "j = joinById st (room_id room) uid now
       \<or> (findByCode st code = Inr room \<and> j = joinByCode st code uid now)"
  shows "(fst j = Inl (Failure 400 ''Room is full''))
            = (maxMembers room \<le> of_nat (countMembers st (room_id room)))
    \<and> (maxMembers room \<le> of_nat (countMembers st (room_id room)) \<longrightarrow> snd j = st)
    \<and> (of_nat (countMembers st (room_id room)) < maxMembers room \<longrightarrow>
          of_nat (countMembers (snd j) (room_id room)) < maxMembers room + 1)
    \<and> (maxMembers room \<in> \<int> \<and> 1 \<le> maxMembers room \<longrightarrow>
          of_nat (countMembers st (room_id room)) \<le> maxMembers room
          \<and> of_nat (countMembers (snd j) (room_id room)) \<le> maxMembers room
          \<and> (fst j = Inl (Failure 400 ''Room is full''))
              = (of_nat (countMembers st (room_id room)) = maxMembers room))"
proof -
  from assms(1) have inv: "db_inv st" by (rule reachable_inv)
  from assms(3) have jf: "j = joinFound st room uid now"
    using joinById_found[OF inv_findRoomById[OF inv assms(2)], of uid now]
    by (auto simp: joinByCode_found)
  note cap = joinFound_capacity[of st room uid now, folded jf]
  have e: "maxMembers room \<in> \<int> \<and> 1 \<le> maxMembers room \<longrightarrow>
          of_nat (countMembers st (room_id room)) \<le> maxMembers room
          \<and> of_nat (countMembers (snd j) (room_id room)) \<le> maxMembers room
          \<and> (fst j = Inl (Failure 400 ''Room is full''))
              = (of_nat (countMembers st (room_id room)) = maxMembers room)"
  proof
    assume h: "maxMembers room \<in> \<int> \<and> 1 \<le> maxMembers room"
    with inv assms(2) have le: "of_nat (countMembers st (room_id room)) \<le> maxMembers room"
      by (simp add: db_inv_def capacity_ok_def)
    have "db_inv (snd j)"
      unfolding jf using inv assms(2) by (rule inv_joinFound) (rule prod.collapse[symmetric])
    moreover have "rooms (snd j) = rooms st"
      unfolding jf by (simp add: joinFound_def Let_def split: option.splits)
    ultimately have le': "of_nat (countMembers (snd j) (room_id room)) \<le> maxMembers room"
      using h assms(2) by (simp add: db_inv_def capacity_ok_def)
    from cap le have "(fst j = Inl (Failure 400 ''Room is full''))
              = (of_nat (countMembers st (room_id room)) = maxMembers room)" by auto
    with le le' show "of_nat (countMembers st (room_id room)) \<le> maxMembers room
          \<and> of_nat (countMembers (snd j) (room_id room)) \<le> maxMembers room
          \<and> (fst j = Inl (Failure 400 ''Room is full''))
              = (of_nat (countMembers st (room_id room)) = maxMembers room)" by blast
  qed
  from cap e show ?thesis by blast
qed

theorem join_capacity_witness:
  "smallRoom \<in> set (rooms dbSmallJoined)
   \<and> fst (joinById dbSmallJoined 0 3 300) = Inl (Failure 400 ''Room is full'')
   \<and> countMembers dbSmallJoined 0 = 2 \<and> maxMembers smallRoom = 2
   \<and> snd (joinById dbSmallJoined 0 3 300) = dbSmallJoined"
proof -
  have r: "smallRoom \<in> set (rooms dbSmallJoined)" by (simp add: dbSmallJoined_def)
  have c: "countMembers dbSmallJoined 0 = 2"
    by (simp add: countMembers_def membersOf_def dbSmallJoined_def member1_def member2_def)
  have i: "room_id smallRoom = 0" "maxMembers smallRoom = 2"
    by (simp_all add: smallRoom_def testRoom_def)
  have "joinById dbSmallJoined 0 3 300 = joinById dbSmallJoined (room_id smallRoom) 3 300
      \<or> (findByCode dbSmallJoined None = Inr smallRoom
          \<and> joinById dbSmallJoined 0 3 300 = joinByCode dbSmallJoined None 3 300)"
    by (simp add: i)
  from join_capacity[OF reachable_dbSmallJoined r this] r c i show ?thesis by simp
qed

text \<open>
  Claim C4 as stated fails twice. A room created with \<open>maxMembers\<close> -1 in the body holds
  one membership, and a join is refused although 1 is not -1. A room created with
  \<open>maxMembers\<close> 3/2 holds one membership, a join is accepted, and the room then holds
  two, which is more than 3/2.
\<close>

theorem join_full_without_equal_count:
  "reachable dbNegative
   \<and> findRoomById dbNegative 0 = Some negativeRoom
   \<and> fst (joinById dbNegative 0 2 200) = Inl (Failure 400 ''Room is full'')
   \<and> fst (joinByCode dbNegative (Some ''AAAAAA'') 2 200) = Inl (Failure 400 ''Room is full'')
   \<and> countMembers dbNegative 0 = 1
   \<and> maxMembers negativeRoom = - 1
   \<and> reachable dbHalf
   \<and> joinById dbHalf 0 2 200 = (Inr (halfRoom, member2), dbHalfJoined)
   \<and> countMembers dbHalfJoined 0 = 2
   \<and> maxMembers halfRoom = 3 / 2"
proof -
  have "fst (joinByCode dbNegative (Some ''AAAAAA'') 2 200) = Inl (Failure 400 ''Room is full'')"
    by (simp add: joinByCode_def findByCode_def trim_code_example upper_code_example
        findRoomByCodePoints_def joinFound_def query_defs example_defs)
  moreover have "fst (joinById dbNegative 0 2 200) = Inl (Failure 400 ''Room is full'')"
    by (simp add: joinById_def joinFound_def query_defs example_defs)
  moreover have "findRoomById dbNegative 0 = Some negativeRoom" "countMembers dbNegative 0 = 1"
    "maxMembers negativeRoom = - 1"
    by (simp_all add: query_defs example_defs)
  moreover have "countMembers dbHalfJoined 0 = 2" "maxMembers halfRoom = 3 / 2"
    by (simp_all add: query_defs example_defs halfRoom_def dbHalfJoined_def)
  ultimately show ?thesis using reachable_dbNegative reachable_dbHalf join_half by simp
qed

text \<open>What a repeated join changes: the status of the caller's membership, nothing else.\<close>

lemma touch_membership:
  assumes "findMembership st roomId uid = Some membership"
  defines "st' \<equiv> st\<lparr>roomMembers := map (\<lambda>m. if member_id m = member_id membership
                                    then m\<lparr>status := Online\<rparr> else m) (roomMembers st)\<rparr>"
  shows "map (\<lambda>m. m\<lparr>status := Online\<rparr>) (roomMembers st') =
           map (\<lambda>m. m\<lparr>status := Online\<rparr>) (roomMembers st)"
    and "length (roomMembers st') = length (roomMembers st)"
    and "countMembers st' roomId = countMembers st roomId"
    and "findMembership st' roomId uid = Some (membership\<lparr>status := Online\<rparr>)"
    and "rooms st' = rooms st" and "messages st' = messages st"
proof -
  let ?f = "\<lambda>m. if member_id m = member_id membership then m\<lparr>status := Online\<rparr> else m"
  show "map (\<lambda>m. m\<lparr>status := Online\<rparr>) (roomMembers st') =
           map (\<lambda>m. m\<lparr>status := Online\<rparr>) (roomMembers st)"
    by (simp add: st'_def o_def if_distrib cong: if_cong)
  show "length (roomMembers st') = length (roomMembers st)" by (simp add: st'_def)
  show "countMembers st' roomId = countMembers st roomId"
    by (simp add: st'_def countMembers_def membersOf_def filter_map o_def if_distrib cong: if_cong)
  have "find (\<lambda>m. member_room m = roomId \<and> member_user m = uid) (map ?f (roomMembers st))
      = map_option ?f (find (\<lambda>m. member_room m = roomId \<and> member_user m = uid) (roomMembers st))"
    by (rule find_map_pred) simp
  with assms(1) show "findMembership st' roomId uid = Some (membership\<lparr>status := Online\<rparr>)"
    by (simp add: st'_def findMembership_def)
  show "rooms st' = rooms st" "messages st' = messages st" by (simp_all add: st'_def)
qed

text \<open>
  The branch of the join handlers for a user who already holds a membership: reached only
  past the capacity test, it answers with the room and the existing membership, its status
  set to online; no membership is added, and apart from that status every membership, room
  and message is as before. At capacity the test answers first.
\<close>

lemma repeated_join:
  assumes m: "findMembership st (room_id room) uid = Some membership"
    and j: "(findRoomById st (room_id room) = Some room \<and> j = joinById st (room_id room) uid now)
          \<or> (findByCode st code = Inr room \<and> j = joinByCode st code uid now)"
  shows "(of_nat (countMembers st (room_id room)) < maxMembers room \<longrightarrow>
            fst j = Inr (room, membership\<lparr>status := Online\<rparr>)
            \<and> length (roomMembers (snd j)) = length (roomMembers st)
            \<and> countMembers (snd j) (room_id room) = countMembers st (room_id room)
            \<and> map (\<lambda>m. m\<lparr>status := Online\<rparr>) (roomMembers (snd j)) =
                map (\<lambda>m. m\<lparr>status := Online\<rparr>) (roomMembers st)
            \<and> findMembership (snd j) (room_id room) uid = Some (membership\<lparr>status := Online\<rparr>)
            \<and> rooms (snd j) = rooms st \<and> messages (snd j) = messages st)
       \<and> (maxMembers room \<le> of_nat (countMembers st (room_id room)) \<longrightarrow>
            j = (Inl (Failure 400 ''Room is full''), st))"
proof -
  from j have jf: "j = joinFound st room uid now"
    by (auto simp: joinById_found joinByCode_found)
  show ?thesis
  proof (cases "maxMembers room \<le> of_nat (countMembers st (room_id room))")
    case True
    then show ?thesis by (simp add: jf joinFound_full)
  next
    case False
    then have lt: "of_nat (countMembers st (room_id room)) < maxMembers room" by simp
    from touch_membership[OF m] lt show ?thesis
      by (simp add: jf joinFound_again[OF lt m])
  qed
qed

lemma repeated_join_example: "joinById dbJoined 0 2 500 = (Inr (testRoom, member2), dbJoined)"
  by (simp add: joinById_def joinFound_def query_defs example_defs)

text \<open>
  Claim C5: a user who already holds a membership in a room can join it again, by id or by
  code, and the join reuses the membership, setting its status to online, instead of
  creating a second one. The handlers have the branch that does this, and in a room below
  capacity it is taken: user 2, a member of the room of \<open>dbJoined\<close>, joins again and is
  answered with the room and the same membership. The capacity test comes before it,
  though, and counts the caller's own membership: in a room with \<open>maxMembers\<close> 2, user 2
  joins, which fills the room, and joins again, and this second join, by id or by code, is
  answered 400 "Room is full" although user 2 is a member.
\<close>

theorem join_again_refused_when_full:
  "reachable dbJoined
   \<and> findMembership dbJoined 0 2 = Some member2
   \<and> joinById dbJoined 0 2 500 = (Inr (testRoom, member2), dbJoined)
   \<and> reachable dbSmallJoined
   \<and> joinById dbSmall 0 2 200 = (Inr (smallRoom, member2), dbSmallJoined)
   \<and> findMembership dbSmallJoined 0 2 = Some member2
   \<and> joinById dbSmallJoined 0 2 300 = (Inl (Failure 400 ''Room is full''), dbSmallJoined)
   \<and> joinByCode dbSmallJoined (Some ''AAAAAA'') 2 300 =
       (Inl (Failure 400 ''Room is full''), dbSmallJoined)"
proof -
  have "findMembership dbJoined 0 2 = Some member2"
    by (simp add: query_defs example_defs)
  moreover
  have "joinByCode dbSmallJoined (Some ''AAAAAA'') 2 300 =
       (Inl (Failure 400 ''Room is full''), dbSmallJoined)"
    by (simp add: joinByCode_def findByCode_def trim_code_example upper_code_example
        findRoomByCodePoints_def joinFound_def query_defs example_defs)
  moreover have "joinById dbSmallJoined 0 2 300 = (Inl (Failure 400 ''Room is full''), dbSmallJoined)"
    by (simp add: joinById_def joinFound_def query_defs example_defs)
  moreover have "findMembership dbSmallJoined 0 2 = Some member2"
    by (simp add: query_defs example_defs)
  ultimately show ?thesis
    using reachable_dbJoined repeated_join_example reachable_dbSmallJoined join_small2 by simp
qed

section \<open>Room codes at lookup\<close>

lemma findByCode_Inr_iff:
  "findByCode st (Some input) = Inr room \<longleftrightarrow>
     trim input \<noteq> [] \<and> findRoomByCodePoints st (toUpperCase (trim input)) = Some room"
  by (auto simp: findByCode_def trim_Nil split: option.splits)

lemma findByCode_upper:
  assumes "toUpperCase a = toUpperCase b"
  shows "findByCode st (Some a) = findByCode st (Some b)"
proof -
  from assms have "trimPoints (toUpperCase a) = trimPoints (toUpperCase b)" by simp
  then have t: "toUpperCase (trim a) = toUpperCase (trim b)" by (simp only: trim_toUpperCase)
  then have e: "(trim a = []) = (trim b = [])"
    by (metis toUpperCase_Nil_iff)
  from assms have "(a = []) = (b = [])" by (metis toUpperCase_Nil_iff)
  with t e show ?thesis by (simp add: findByCode_def)
qed

text \<open>
  Claim C10. Join-by-code looks the room up by the supplied code with the white space
  around it removed and its letters put in upper case. In a reachable state an input
  finds a given room exactly when its trimmed, upper-cased form is the room's stored
  code, and the request then does what join-by-id does for that room. Stored codes are
  upper case already, and two inputs that differ only in the case of their letters find
  the same room or fail alike. Inputs are strings of characters up to U+00FF, trimmed and
  put in upper case as JavaScript does, the no-break space and the letters beyond ASCII
  included.
\<close>

theorem join_code_normalization:
  assumes "reachable st" and "room \<in> set (rooms st)"
  shows "(findByCode st (Some input) = Inr room)
            = (toUpperCase (trim input) = codePoints (roomCode room))
    \<and> (toUpperCase (trim input) = codePoints (roomCode room) \<longrightarrow>
          joinByCode st (Some input) uid now = joinById st (room_id room) uid now)
    \<and> toUpperCase (roomCode room) = codePoints (roomCode room)
    \<and> (toUpperCase other = toUpperCase input \<longrightarrow>
          findByCode st (Some other) = findByCode st (Some input))"
proof -
  from assms(1) have inv: "db_inv st" by (rule reachable_inv)
  with assms(2) have wf: "length (roomCode room) = 6" "set (roomCode room) \<subseteq> set characters"
    by (simp_all add: db_inv_def codes_ok_def)
  have byCode: "findRoomByCodePoints st (codePoints (roomCode room)) = Some room"
    unfolding findRoomByCodePoints_def
  proof (rule find_unique)
    show "room \<in> set (rooms st)" by (rule assms(2))
    show "codePoints (roomCode room) = codePoints (roomCode room)" ..
    fix y assume y: "y \<in> set (rooms st)" "codePoints (roomCode y) = codePoints (roomCode room)"
    from codePoints_inject[OF y(2)] y(1)
    show "y = room" using inv_unique(4)[OF inv _ assms(2)] by blast
  qed
  have a: "(findByCode st (Some input) = Inr room)
      = (toUpperCase (trim input) = codePoints (roomCode room))"
  proof
    assume "findByCode st (Some input) = Inr room"
    then have "findRoomByCodePoints st (toUpperCase (trim input)) = Some room"
      by (simp add: findByCode_Inr_iff)
    from findRoomByCodePoints_Some_D[OF this]
    show "toUpperCase (trim input) = codePoints (roomCode room)" by simp
  next
    assume eq: "toUpperCase (trim input) = codePoints (roomCode room)"
    from wf(1) have "codePoints (roomCode room) \<noteq> []" by (auto simp: codePoints_def)
    then have "toUpperCase (trim input) \<noteq> []" unfolding eq .
    then have "trim input \<noteq> []" by (simp add: toUpperCase_Nil_iff)
    with eq byCode show "findByCode st (Some input) = Inr room"
      by (simp add: findByCode_Inr_iff)
  qed
  have b: "toUpperCase (trim input) = codePoints (roomCode room) \<longrightarrow>
          joinByCode st (Some input) uid now = joinById st (room_id room) uid now"
  proof
    assume "toUpperCase (trim input) = codePoints (roomCode room)"
    with a have "findByCode st (Some input) = Inr room" by simp
    from joinByCode_found[OF this, of uid now]
      joinById_found[OF inv_findRoomById[OF inv assms(2)], of uid now]
    show "joinByCode st (Some input) uid now = joinById st (room_id room) uid now" by simp
  qed
  have c: "toUpperCase (roomCode room) = codePoints (roomCode room)"
    by (rule toUpperCase_characters[OF wf(2)])
  have d: "toUpperCase other = toUpperCase input \<longrightarrow>
          findByCode st (Some other) = findByCode st (Some input)"
    by (rule impI) (rule findByCode_upper)
  from a b c d show ?thesis by blast
qed

theorem join_code_normalization_witness:
  "testRoom \<in> set (rooms dbCreated)
   \<and> toUpperCase (trim (CHR 0xA0 # '' aaaaaa '')) = codePoints (roomCode testRoom)
   \<and> findByCode dbCreated (Some (CHR 0xA0 # '' aaaaaa '')) = Inr testRoom
   \<and> joinByCode dbCreated (Some (CHR 0xA0 # '' aaaaaa '')) 2 200 =
       (Inr (testRoom, member2), dbJoined)"
proof -
  have r: "testRoom \<in> set (rooms dbCreated)" by (simp add: dbCreated_def)
  have n: "toUpperCase (trim (CHR 0xA0 # '' aaaaaa '')) = codePoints (roomCode testRoom)"
    by (simp add: normalize_example testRoom_def)
  have i: "room_id testRoom = 0" by (simp add: testRoom_def)
  note t = join_code_normalization[OF reachable_dbCreated r, of "CHR 0xA0 # '' aaaaaa ''" 2 200 "''''"]
  from t n have f: "findByCode dbCreated (Some (CHR 0xA0 # '' aaaaaa '')) = Inr testRoom" by blast
  from t n have "joinByCode dbCreated (Some (CHR 0xA0 # '' aaaaaa '')) 2 200 =
      joinById dbCreated (room_id testRoom) 2 200" by blast
  then have j: "joinByCode dbCreated (Some (CHR 0xA0 # '' aaaaaa '')) 2 200 =
      (Inr (testRoom, member2), dbJoined)"
    by (simp only: i join_example2)
  from r n f j show ?thesis by blast
qed

end
